theory Spec2Isabelle
  imports Main "HOL-Library.AList"
begin

section \<open>Data model of server.js\<close>

text \<open>
  Identity ids as the server handles them in memory (the \<open>id\<close> claim of a decoded JWT, the
  keys of \<open>online\<close>, the \<open>to\<close> of a payload, the \<open>with\<close> of a query) and socket.io
  connection ids are strings.
\<close>

type_synonym uid = string
type_synonym sid = string

text \<open>
  The paths \<open>from\<close> and \<open>to\<close> of \<open>messageSchema\<close> and the \<open>_id\<close> of a user document are
  ObjectIds. An ObjectId is named here by the string that \<open>String(id)\<close> and JSON give for
  it. Mongoose casts a string to an ObjectId whenever it stores or queries such a path, and
  the cast throws for a string that is no id. The cast belongs to Mongoose; it is the
  parameter \<open>cast\<close> of everything below: \<open>cast x = Some i\<close> when \<open>x\<close> casts to \<open>i\<close> (two
  spellings of one id cast to the same \<open>i\<close>), \<open>None\<close> when the cast throws.
\<close>

datatype oid = ObjectId string

text \<open>The decoded token that \<open>io.use\<close> stores in \<open>socket.user\<close> and \<open>authMiddleware\<close> in
  \<open>req.user\<close>: \<open>{ id, email, displayName }\<close> as signed by \<open>createToken\<close>.\<close>

record user =
  user_id :: uid
  user_email :: string
  user_displayName :: string

text \<open>A document of the \<open>User\<close> collection, stored under its \<open>_id\<close>.\<close>

record user_doc =
  doc_email :: string
  doc_displayName :: string

text \<open>A document of the \<open>Message\<close> collection (\<open>messageSchema\<close>). \<open>to\<close> is absent when the
  payload had none; \<open>mediaUrl\<close> and \<open>mediaType\<close> may be \<open>null\<close>; \<open>createdAt\<close> is the clock
  reading at creation.\<close>

record message =
  msg_id :: nat
  msg_from :: oid
  msg_to :: "oid option"
  msg_text :: string
  msg_mediaUrl :: "string option"
  msg_mediaType :: "string option"
  msg_createdAt :: nat

text \<open>The result of \<open>populate('from', 'email displayName')\<close>: the \<open>from\<close> reference is
  replaced by the selected fields of the referenced user document, or by \<open>null\<close> when the
  \<open>User\<close> collection has no such document.\<close>

record from_doc =
  from_id :: oid
  from_email :: string
  from_displayName :: string

record populated =
  pop_id :: nat
  pop_from :: "from_doc option"
  pop_to :: "oid option"
  pop_text :: string
  pop_mediaUrl :: "string option"
  pop_mediaType :: "string option"
  pop_createdAt :: nat

text \<open>Events the server emits on a socket: \<open>'online_users'\<close> with the array of the keys of
  \<open>online\<close>, and \<open>'message'\<close> with the populated document.\<close>

datatype out_event = online_users "uid list" | message_ev populated

text \<open>Observable effects in the order in which the server performs them: a document
  appended to the \<open>Message\<close> collection, an event written to one socket.\<close>

datatype effect = Created message | Emitted sid out_event

text \<open>
  The server state: the \<open>online\<close> Map (identity id to socket id, in insertion order, as
  \<open>Array.from(online.keys())\<close> enumerates it), the sockets connected to the namespace with
  the \<open>socket.user\<close> of each, the two collections, and the effects so far (oldest first).
\<close>

record state =
  online :: "(uid \<times> sid) list"
  sockets :: "(sid \<times> user) list"
  messages :: "message list"
  users :: "(oid \<times> user_doc) list"
  trace :: "effect list"

text \<open>What a handler can fail with: the two \<open>next(new Error(...))\<close> of \<open>io.use\<close> (the same
  two texts are the 401 answers of \<open>authMiddleware\<close>), the 400 answer of the messages route,
  the CastError that \<open>Message.find\<close> throws, a property read on a missing payload, the
  validation error of \<open>Message.create\<close> for a path that does not cast, and a
  \<open>Message.create\<close> or \<open>Message.findById\<close> that the database rejects.\<close>

datatype error =
    no_token
  | invalid_token
  | with_param_required
  | cast_error
  | payload_type_error
  | validation_error
  | create_rejected
  | find_rejected

text \<open>The handshake data \<open>io.use\<close> reads, the \<open>private_message\<close> payload as the list of
  the own properties of the object the client sent (string valued; a property that is not
  listed is \<open>undefined\<close>), and the part of an HTTP request the messages route reads.\<close>

record handshake =
  auth_token :: "string option"
  query_token :: "string option"

type_synonym payload = "(string \<times> string) list"

record request =
  authorization :: "string option"
  query_with :: "string option"

text \<open>What the database does during one \<open>private_message\<close> with a document that has
  passed validation: the insert of \<open>Message.create\<close> is rejected, or it is done and
  \<open>findById(...).populate(...)\<close> is rejected, or both are done.\<close>

datatype db_outcome = create_fails | find_fails | db_ok

section \<open>JavaScript helpers\<close>

text \<open>Truthiness of a value that is a string or \<open>undefined\<close>: the empty string is falsy.\<close>

definition truthy :: "string option \<Rightarrow> bool" where
  "truthy v = (case v of None \<Rightarrow> False | Some x \<Rightarrow> x \<noteq> [])"

text \<open>\<open>a || b\<close>.\<close>

definition js_or :: "string option \<Rightarrow> string option \<Rightarrow> string option" where
  "js_or a b = (if truthy a then a else b)"

text \<open>\<open>v || ''\<close>, a string in every case.\<close>

definition or_empty :: "string option \<Rightarrow> string" where
  "or_empty v = (case v of None \<Rightarrow> [] | Some x \<Rightarrow> x)"

text \<open>\<open>v || null\<close>.\<close>

definition or_null :: "string option \<Rightarrow> string option" where
  "or_null v = (if truthy v then v else None)"

text \<open>\<open>String(v)\<close>.\<close>

definition String_js :: "string option \<Rightarrow> string" where
  "String_js v = (case v of None \<Rightarrow> ''undefined'' | Some x \<Rightarrow> x)"

text \<open>\<open>str.split(c)\<close> for a one-character separator: never the empty array, an empty piece
  between two adjacent separators.\<close>

fun split :: "char \<Rightarrow> string \<Rightarrow> string list" where
  "split c [] = [] # []"
| "split c (x # xs) =
     (if x = c then [] # split c xs
      else (case split c xs of [] \<Rightarrow> [x] # [] | w # ws \<Rightarrow> (x # w) # ws))"

text \<open>\<open>arr[i]\<close>: \<open>undefined\<close> out of range.\<close>

fun index :: "'a list \<Rightarrow> nat \<Rightarrow> 'a option" where
  "index [] i = None"
| "index (x # xs) 0 = Some x"
| "index (x # xs) (Suc i) = index xs i"

text \<open>The cast of a path that may be absent: an absent path stays absent, a present one
  is cast. The outer \<open>None\<close> is the thrown cast.\<close>

definition cast_path :: "(string \<Rightarrow> oid option) \<Rightarrow> string option \<Rightarrow> oid option option" where
  "cast_path cast v =
     (case v of
        None \<Rightarrow> Some None
      | Some x \<Rightarrow> (case cast x of None \<Rightarrow> None | Some i \<Rightarrow> Some (Some i)))"

section \<open>Authentication\<close>

text \<open>
  \<open>jwt.verify(token, JWT_SECRET, cb)\<close> belongs to the jsonwebtoken library. It is the
  parameter \<open>verify\<close> of everything below: \<open>verify t = Some decoded\<close> when the callback
  gets the decoded payload, \<open>None\<close> when it gets an error.
\<close>

definition io_use :: "(string \<Rightarrow> user option) \<Rightarrow> handshake \<Rightarrow> error + user" where
  "io_use verify h =
     (let token = js_or (auth_token h) (query_token h) in
      if \<not> truthy token then Inl no_token
      else (case verify (or_empty token) of
              None \<Rightarrow> Inl invalid_token
            | Some decoded \<Rightarrow> Inr decoded))"

definition authMiddleware :: "(string \<Rightarrow> user option) \<Rightarrow> request \<Rightarrow> error + user" where
  "authMiddleware verify req =
     (let header = authorization req in
      if \<not> truthy header then Inl no_token
      else (case index (split CHR '' '' (or_empty header)) 1 of
              None \<Rightarrow> Inl invalid_token
            | Some token \<Rightarrow>
                (case verify token of
                   None \<Rightarrow> Inl invalid_token
                 | Some decoded \<Rightarrow> Inr decoded)))"

section \<open>The messages route\<close>

text \<open>The filter of \<open>Message.find\<close> after the cast of its four values: \<open>$or\<close> of the two
  directions.\<close>

definition between :: "oid \<Rightarrow> oid \<Rightarrow> message \<Rightarrow> bool" where
  "between me other m \<longleftrightarrow>
     (msg_from m = me \<and> msg_to m = Some other) \<or>
     (msg_from m = other \<and> msg_to m = Some me)"

text \<open>
  \<open>GET /api/messages\<close>: \<open>authMiddleware\<close>, then the \<open>with\<close> parameter, then the query
  \<open>find(...).sort('createdAt').limit(100)\<close>. The query casts \<open>req.user.id\<close> and \<open>other\<close> to
  ObjectIds; when a cast throws, the route, which has no \<open>try\<close>, sends no answer: that is
  the result \<open>Inl cast_error\<close>. The collection is taken to be readable.
\<close>

definition get_messages ::
  "(string \<Rightarrow> user option) \<Rightarrow> (string \<Rightarrow> oid option) \<Rightarrow> state \<Rightarrow> request \<Rightarrow>
     error + message list" where
  "get_messages verify cast s req =
     (case authMiddleware verify req of
        Inl e \<Rightarrow> Inl e
      | Inr u \<Rightarrow>
          (let other = query_with req in
           if \<not> truthy other then Inl with_param_required
           else (case (cast (user_id u), cast (or_empty other)) of
                   (Some me, Some oth) \<Rightarrow>
                     Inr (take 100 (sort_key msg_createdAt
                            (filter (between me oth) (messages s))))
                 | _ \<Rightarrow> Inl cast_error)))"

section \<open>The socket handlers\<close>

text \<open>\<open>io.emit(ev)\<close> writes to every socket connected to the namespace;
  \<open>io.to(room).emit(ev)\<close> writes to the sockets in the room, and the only rooms are the ones
  each socket joins under its own id.\<close>

definition io_emit :: "(sid \<times> user) list \<Rightarrow> out_event \<Rightarrow> effect list" where
  "io_emit socks ev = map (\<lambda>k. Emitted k ev) (map fst socks)"

definition io_to_emit :: "(sid \<times> user) list \<Rightarrow> sid \<Rightarrow> out_event \<Rightarrow> effect list" where
  "io_to_emit socks room ev = (if room \<in> set (map fst socks) then [Emitted room ev] else [])"

text \<open>\<open>io.on('connection')\<close>, up to the registration of the two listeners: the socket has
  joined the namespace, \<open>online.set(user.id, socket.id)\<close>, then the broadcast.\<close>

definition on_connection :: "state \<Rightarrow> sid \<Rightarrow> user \<Rightarrow> state" where
  "on_connection s k u =
     (let socks = sockets s @ [(k, u)];
          onl = AList.update (user_id u) k (online s)
      in s\<lparr>online := onl, sockets := socks,
            trace := trace s @ io_emit socks (online_users (map fst onl))\<rparr>)"

text \<open>\<open>socket.on('disconnect')\<close>: socket.io fires the event after the socket has left the
  namespace and its rooms; \<open>online.delete(user.id)\<close>, then the broadcast.\<close>

definition on_disconnect :: "state \<Rightarrow> sid \<Rightarrow> user \<Rightarrow> state" where
  "on_disconnect s k u =
     (let socks = AList.delete k (sockets s);
          onl = AList.delete (user_id u) (online s)
      in s\<lparr>online := onl, sockets := socks,
            trace := trace s @ io_emit socks (online_users (map fst onl))\<rparr>)"

text \<open>
  The \<open>private_message\<close> listener is an \<open>async\<close> function without \<open>try\<close>, and server.js
  installs no handler for unhandled rejections: when the listener throws or an awaited
  promise rejects, the Node process ends. Every socket closes with it and \<open>online\<close> is
  gone; no \<open>disconnect\<close> listener runs and nothing is broadcast. The collections are in the
  database and stay.
\<close>

definition process_exit :: "state \<Rightarrow> state" where
  "process_exit s = s\<lparr>online := [], sockets := []\<rparr>"

text \<open>\<open>Message.findById(msg._id).populate('from', 'email displayName')\<close> on the document
  just created.\<close>

definition populate :: "(oid \<times> user_doc) list \<Rightarrow> message \<Rightarrow> populated" where
  "populate us m =
     \<lparr>pop_id = msg_id m,
      pop_from = (case map_of us (msg_from m) of
                    None \<Rightarrow> None
                  | Some d \<Rightarrow> Some \<lparr>from_id = msg_from m, from_email = doc_email d,
                                   from_displayName = doc_displayName d\<rparr>),
      pop_to = msg_to m, pop_text = msg_text m, pop_mediaUrl = msg_mediaUrl m,
      pop_mediaType = msg_mediaType m, pop_createdAt = msg_createdAt m\<rparr>"

text \<open>
  \<open>socket.on('private_message')\<close> of the socket \<open>k\<close> whose \<open>socket.user\<close> is \<open>u\<close>. \<open>now\<close> is
  the clock reading that \<open>Date.now\<close> gives the new document, \<open>db\<close> what the database does.
  \<open>Message.create\<close> casts \<open>from\<close> and, when the payload has one, \<open>to\<close>; it rejects when a
  cast throws and when the database rejects the insert. The new \<open>_id\<close> is the number of
  documents already stored. The presence map is looked up under \<open>String(to)\<close>, the string
  as the payload spells it. The result is the error the listener ends with, if any, and
  the state it leaves: the state after the end of the process when there is an error.
\<close>

definition on_private_message ::
  "(string \<Rightarrow> oid option) \<Rightarrow> state \<Rightarrow> sid \<Rightarrow> user \<Rightarrow> payload option \<Rightarrow> nat \<Rightarrow> db_outcome \<Rightarrow>
     error option \<times> state" where
  "on_private_message cast s k u pl now db =
     (case pl of
        None \<Rightarrow> (Some payload_type_error, process_exit s)
      | Some p \<Rightarrow>
          (let from = user_id u;
               to = map_of p ''to'';
               text = or_empty (map_of p ''text'');
               mediaUrl = or_null (map_of p ''mediaUrl'');
               mediaType = or_null (map_of p ''mediaType'')
           in (case (cast from, cast_path cast to) of
                 (Some from_oid, Some to_oid) \<Rightarrow>
                   if db = create_fails then (Some create_rejected, process_exit s)
                   else
                    (let msg = \<lparr>msg_id = length (messages s), msg_from = from_oid,
                                msg_to = to_oid, msg_text = text, msg_mediaUrl = mediaUrl,
                                msg_mediaType = mediaType, msg_createdAt = now\<rparr>;
                         s1 = s\<lparr>messages := messages s @ [msg],
                                trace := trace s @ [Created msg]\<rparr>
                     in if db = find_fails then (Some find_rejected, process_exit s1)
                        else
                         (let pop = populate (users s1) msg;
                              s2 = s1\<lparr>trace := trace s1 @ [Emitted k (message_ev pop)]\<rparr>;
                              recSocketId = map_of (online s2) (String_js to)
                          in if truthy recSocketId
                             then (None, s2\<lparr>trace := trace s2 @
                                      io_to_emit (sockets s2) (or_empty recSocketId)
                                        (message_ev pop)\<rparr>)
                             else (None, s2)))
               | _ \<Rightarrow> (Some validation_error, process_exit s))))"

section \<open>The server as a transition system\<close>

text \<open>
  What reaches the server: a connection attempt with the socket id the transport gave it
  and its handshake; a \<open>private_message\<close> on a socket, with the clock and the behaviour of
  the database during the listener; the close of a socket. The transport gives every
  connection a non-empty id that no open connection has, and a socket has listeners only
  between its \<open>connection\<close> and its \<open>disconnect\<close>: an event outside these conditions does
  not occur, and \<open>step\<close> leaves the state as it is. Each handler runs to its end before the
  next event is taken. After the end of a process nothing is connected; an event that
  follows in the list is one that reaches the next process started on the same database.
\<close>

datatype event =
    Handshake sid handshake
  | PrivateMessage sid "payload option" nat db_outcome
  | Disconnect sid

fun step ::
  "(string \<Rightarrow> user option) \<Rightarrow> (string \<Rightarrow> oid option) \<Rightarrow> state \<Rightarrow> event \<Rightarrow> state" where
  "step verify cast s (Handshake k h) =
     (if k = [] \<or> k \<in> set (map fst (sockets s)) then s
      else (case io_use verify h of
              Inl e \<Rightarrow> s
            | Inr u \<Rightarrow> on_connection s k u))"
| "step verify cast s (PrivateMessage k pl now db) =
     (case map_of (sockets s) k of
        None \<Rightarrow> s
      | Some u \<Rightarrow> snd (on_private_message cast s k u pl now db))"
| "step verify cast s (Disconnect k) =
     (case map_of (sockets s) k of
        None \<Rightarrow> s
      | Some u \<Rightarrow> on_disconnect s k u)"

fun run ::
  "(string \<Rightarrow> user option) \<Rightarrow> (string \<Rightarrow> oid option) \<Rightarrow> state \<Rightarrow> event list \<Rightarrow> state" where
  "run verify cast s [] = s"
| "run verify cast s (e # es) = run verify cast (step verify cast s e) es"

text \<open>The server at start: nobody connected, the collections as the database holds them.\<close>

definition init :: "message list \<Rightarrow> (oid \<times> user_doc) list \<Rightarrow> state" where
  "init ms us = \<lparr>online = [], sockets = [], messages = ms, users = us, trace = []\<rparr>"

section \<open>Observations\<close>

text \<open>An identity is online when it is a key of \<open>online\<close>; its open sessions are the
  connected sockets whose \<open>socket.user.id\<close> it is.\<close>

definition isOnline :: "state \<Rightarrow> uid \<Rightarrow> bool" where
  "isOnline s i \<longleftrightarrow> i \<in> set (map fst (online s))"

definition open_sessions :: "state \<Rightarrow> uid \<Rightarrow> sid list" where
  "open_sessions s i = map fst (filter (\<lambda>(k, u). user_id u = i) (sockets s))"

text \<open>The effects performed between an earlier state and a later one.\<close>

definition new_effects :: "state \<Rightarrow> state \<Rightarrow> effect list" where
  "new_effects s s' = drop (length (trace s)) (trace s')"

text \<open>The \<open>'message'\<close> events written to one socket, in order.\<close>

fun delivered :: "sid \<Rightarrow> effect list \<Rightarrow> populated list" where
  "delivered k [] = []"
| "delivered k (Created m # es) = delivered k es"
| "delivered k (Emitted k' (online_users ids) # es) = delivered k es"
| "delivered k (Emitted k' (message_ev p) # es) =
     (if k' = k then p # delivered k es else delivered k es)"

text \<open>The \<open>'online_users'\<close> events written to one socket, in order.\<close>

fun presence :: "sid \<Rightarrow> effect list \<Rightarrow> uid list list" where
  "presence k [] = []"
| "presence k (Created m # es) = presence k es"
| "presence k (Emitted k' (message_ev p) # es) = presence k es"
| "presence k (Emitted k' (online_users ids) # es) =
     (if k' = k then ids # presence k es else presence k es)"

text \<open>The sockets that an effect list writes to, in order.\<close>

fun targets :: "effect list \<Rightarrow> sid list" where
  "targets [] = []"
| "targets (Created m # es) = targets es"
| "targets (Emitted k ev # es) = k # targets es"

text \<open>The documents an effect list appends to the collection, in order.\<close>

fun creations :: "effect list \<Rightarrow> message list" where
  "creations [] = []"
| "creations (Created m # es) = m # creations es"
| "creations (Emitted k ev # es) = creations es"

text \<open>A socket id the server has nothing of: no connected socket, no entry of \<open>online\<close>,
  no event written to it.\<close>

definition unknown :: "state \<Rightarrow> sid \<Rightarrow> bool" where
  "unknown s k \<longleftrightarrow>
     k \<notin> set (map fst (sockets s)) \<and> k \<notin> set (map snd (online s)) \<and> k \<notin> set (targets (trace s))"

text \<open>Every connection attempt under the id \<open>k\<close> in the event list is one that \<open>io.use\<close>
  rejects.\<close>

fun never_admitted :: "(string \<Rightarrow> user option) \<Rightarrow> sid \<Rightarrow> event list \<Rightarrow> bool" where
  "never_admitted verify k [] = True"
| "never_admitted verify k (Handshake k' h # es) =
     ((k' = k \<longrightarrow> isl (io_use verify h)) \<and> never_admitted verify k es)"
| "never_admitted verify k (e # es) = never_admitted verify k es"

text \<open>The socket \<open>k\<close> is connected in every state that the run of the events passes
  through: neither its own close nor the end of the process has closed it.\<close>

fun stays_open ::
  "(string \<Rightarrow> user option) \<Rightarrow> (string \<Rightarrow> oid option) \<Rightarrow> state \<Rightarrow> sid \<Rightarrow> event list \<Rightarrow> bool" where
  "stays_open verify cast s k [] \<longleftrightarrow> k \<in> set (map fst (sockets s))"
| "stays_open verify cast s k (e # es) \<longleftrightarrow>
     k \<in> set (map fst (sockets s)) \<and> stays_open verify cast (step verify cast s e) k es"

text \<open>The document that \<open>private_message\<close> stores, for the ObjectIds that \<open>from\<close> and \<open>to\<close>
  cast to, with the \<open>_id\<close> and \<open>createdAt\<close> it is stored under.\<close>

definition created_doc :: "state \<Rightarrow> oid \<Rightarrow> oid option \<Rightarrow> payload \<Rightarrow> nat \<Rightarrow> message" where
  "created_doc s from_oid to_oid p now =
     \<lparr>msg_id = length (messages s), msg_from = from_oid, msg_to = to_oid,
      msg_text = or_empty (map_of p ''text''),
      msg_mediaUrl = or_null (map_of p ''mediaUrl''),
      msg_mediaType = or_null (map_of p ''mediaType''), msg_createdAt = now\<rparr>"

text \<open>No identity has two connected sockets; and a run in which that holds in every state
  it passes through.\<close>

definition one_session_each :: "state \<Rightarrow> bool" where
  "one_session_each s \<longleftrightarrow> distinct (map (\<lambda>e. user_id (snd e)) (sockets s))"

fun single_session_run ::
  "(string \<Rightarrow> user option) \<Rightarrow> (string \<Rightarrow> oid option) \<Rightarrow> state \<Rightarrow> event list \<Rightarrow> bool" where
  "single_session_run verify cast s [] = one_session_each s"
| "single_session_run verify cast s (e # es) =
     (one_session_each s \<and> single_session_run verify cast (step verify cast s e) es)"

section \<open>Consistency of the presence map with the connected sockets\<close>

text \<open>Socket ids and keys of \<open>online\<close> are unique, and every entry of \<open>online\<close> holds the
  non-empty id of a connected socket of that identity.\<close>

definition wf :: "state \<Rightarrow> bool" where
  "wf s \<longleftrightarrow>
     distinct (map fst (sockets s)) \<and> distinct (map fst (online s)) \<and>
     (\<forall>i k. map_of (online s) i = Some k \<longrightarrow>
        k \<noteq> [] \<and> (\<exists>u. map_of (sockets s) k = Some u \<and> user_id u = i))"

text \<open>Every connected socket's identity is a key of \<open>online\<close>.\<close>

definition covered :: "state \<Rightarrow> bool" where
  "covered s \<longleftrightarrow> (\<forall>k u. (k, u) \<in> set (sockets s) \<longrightarrow> user_id u \<in> set (map fst (online s)))"

section \<open>A sample deployment\<close>

text \<open>
  The cast of the sample deployment reads a string of 24 hexadecimal digits, in either
  case, as the ObjectId of its lower-case form and throws for every other string.
\<close>

definition hex_digit :: "char \<Rightarrow> bool" where
  "hex_digit c \<longleftrightarrow> c \<in> set ''0123456789abcdefABCDEF''"

definition lower_hex :: "char \<Rightarrow> char" where
  "lower_hex c =
     (if c = CHR ''A'' then CHR ''a'' else if c = CHR ''B'' then CHR ''b''
      else if c = CHR ''C'' then CHR ''c'' else if c = CHR ''D'' then CHR ''d''
      else if c = CHR ''E'' then CHR ''e'' else if c = CHR ''F'' then CHR ''f'' else c)"

definition hex_cast :: "string \<Rightarrow> oid option" where
  "hex_cast x =
     (if length x = 24 \<and> list_all hex_digit x then Some (ObjectId (map lower_hex x)) else None)"

text \<open>Two registered users with their ids, a second spelling of the id of the second, the
  tokens \<open>t1\<close> and \<open>t2\<close> that verify to the users, and a handshake that carries a token in
  \<open>auth\<close>. They are the concrete inputs of the scenarios below.\<close>

definition id1 :: uid where
  "id1 = ''64b0c1d2e3f4a5b6c7d8e9f1''"

definition id2 :: uid where
  "id2 = ''64b0c1d2e3f4a5b6c7d8e9f2''"

definition id2_upper :: uid where
  "id2_upper = ''64B0C1D2E3F4A5B6C7D8E9F2''"

definition sample_u1 :: user where
  "sample_u1 = \<lparr>user_id = id1, user_email = ''u1@example.org'', user_displayName = ''One''\<rparr>"

definition sample_u2 :: user where
  "sample_u2 = \<lparr>user_id = id2, user_email = ''u2@example.org'', user_displayName = ''Two''\<rparr>"

definition sample_verify :: "string \<Rightarrow> user option" where
  "sample_verify = map_of [(''t1'', sample_u1), (''t2'', sample_u2)]"

definition sample_users :: "(oid \<times> user_doc) list" where
  "sample_users =
     [(ObjectId id1, \<lparr>doc_email = ''u1@example.org'', doc_displayName = ''One''\<rparr>),
      (ObjectId id2, \<lparr>doc_email = ''u2@example.org'', doc_displayName = ''Two''\<rparr>)]"

definition bearer :: "string \<Rightarrow> handshake" where
  "bearer t = \<lparr>auth_token = Some t, query_token = None\<rparr>"

text \<open>An \<open>Authorization\<close> header of the usual form and a \<open>with\<close> parameter.\<close>

definition history_request :: "string \<Rightarrow> string \<Rightarrow> request" where
  "history_request t other = \<lparr>authorization = Some (''Bearer '' @ t), query_with = Some other\<rparr>"

text \<open>States of the sample deployment: \<open>u1\<close> connected alone; \<open>u1\<close> and \<open>u2\<close> connected;
  \<open>u1\<close> connected and \<open>u2\<close> connected twice; the two after one message each way. And a
  payload from \<open>u1\<close> to \<open>u2\<close>.\<close>

definition sample_alone :: state where
  "sample_alone = run sample_verify hex_cast (init [] sample_users)
     [Handshake ''s1'' (bearer ''t1'')]"

definition sample_both :: state where
  "sample_both = run sample_verify hex_cast (init [] sample_users)
     [Handshake ''s1'' (bearer ''t1''), Handshake ''s2'' (bearer ''t2'')]"

definition sample_twice :: state where
  "sample_twice = run sample_verify hex_cast (init [] sample_users)
     [Handshake ''s1'' (bearer ''t1''), Handshake ''s2'' (bearer ''t2''),
      Handshake ''s3'' (bearer ''t2'')]"

definition sample_chat :: state where
  "sample_chat = run sample_verify hex_cast (init [] sample_users)
     [Handshake ''s1'' (bearer ''t1''), Handshake ''s2'' (bearer ''t2''),
      PrivateMessage ''s1'' (Some [(''to'', id2), (''text'', ''hi'')]) 5 db_ok,
      PrivateMessage ''s2'' (Some [(''to'', id1), (''text'', ''yo'')]) 6 db_ok]"

definition sample_intent :: payload where
  "sample_intent = [(''to'', id2), (''text'', ''hi'')]"

text \<open>A collection that already holds one hundred messages from \<open>u1\<close> to \<open>u2\<close>, created at
  the times 0 to 99.\<close>

definition old_message :: "nat \<Rightarrow> message" where
  "old_message i =
     \<lparr>msg_id = i, msg_from = ObjectId id1, msg_to = Some (ObjectId id2), msg_text = ''old'',
      msg_mediaUrl = None, msg_mediaType = None, msg_createdAt = i\<rparr>"

definition sample_history :: "message list" where
  "sample_history = map old_message [0..<100]"

section \<open>Invariants\<close>

text \<open>Every step keeps the presence map consistent with the connected sockets, so every
  state the server reaches from its start is consistent.\<close>

lemma wf_init: "wf (init ms us)"
  by (simp add: wf_def init_def)

lemma run_append: "run verify cast s (xs @ ys) = run verify cast (run verify cast s xs) ys"
  by (induction xs arbitrary: s) simp_all

text \<open>The outcomes of \<open>private_message\<close>.\<close>

lemma private_message_no_payload:
  "on_private_message cast s k u None now db = (Some payload_type_error, process_exit s)"
  by (simp add: on_private_message_def)

lemma private_message_invalid:
  assumes "cast (user_id u) = None \<or> cast_path cast (map_of p ''to'') = None"
  shows "on_private_message cast s k u (Some p) now db = (Some validation_error, process_exit s)"
  using assms by (auto simp: on_private_message_def Let_def split: option.splits)

lemma private_message_create_fails:
  assumes "cast (user_id u) = Some a" "cast_path cast (map_of p ''to'') = Some t"
  shows "on_private_message cast s k u (Some p) now create_fails =
           (Some create_rejected, process_exit s)"
  using assms by (simp add: on_private_message_def Let_def)

lemma private_message_find_fails:
  assumes "cast (user_id u) = Some a" "cast_path cast (map_of p ''to'') = Some t"
  shows "on_private_message cast s k u (Some p) now find_fails =
     (Some find_rejected,
      process_exit (s\<lparr>messages := messages s @ [created_doc s a t p now],
        trace := trace s @ [Created (created_doc s a t p now)]\<rparr>))"
  using assms by (simp add: on_private_message_def Let_def created_doc_def)

lemma private_message_db_ok:
  assumes "cast (user_id u) = Some a" "cast_path cast (map_of p ''to'') = Some t"
  shows "on_private_message cast s k u (Some p) now db_ok =
     (None,
      s\<lparr>messages := messages s @ [created_doc s a t p now],
        trace := trace s @ Created (created_doc s a t p now) #
          Emitted k (message_ev (populate (users s) (created_doc s a t p now))) #
          (if truthy (map_of (online s) (String_js (map_of p ''to'')))
           then io_to_emit (sockets s)
                  (or_empty (map_of (online s) (String_js (map_of p ''to''))))
                  (message_ev (populate (users s) (created_doc s a t p now)))
           else [])\<rparr>)"
  using assms by (simp add: on_private_message_def Let_def created_doc_def)

text \<open>Every outcome is one of these five.\<close>

lemma private_message_cases:
  obtains (no_payload) "pl = None"
  | (invalid) p where "pl = Some p"
      "cast (user_id u) = None \<or> cast_path cast (map_of p ''to'') = None"
  | (valid) p a t where "pl = Some p" "cast (user_id u) = Some a"
      "cast_path cast (map_of p ''to'') = Some t"
proof (cases pl)
  case None
  then show ?thesis by (rule no_payload)
next
  case (Some p)
  show ?thesis
  proof (cases "cast (user_id u) = None \<or> cast_path cast (map_of p ''to'') = None")
    case True
    with Some show ?thesis by (rule invalid)
  next
    case False
    then obtain a t where "cast (user_id u) = Some a" "cast_path cast (map_of p ''to'') = Some t"
      by auto
    with Some show ?thesis by (rule valid)
  qed
qed

lemma private_message_shape:
  "\<exists>ms tr. set (targets tr) \<subseteq> insert k (set (map fst (sockets s))) \<and>
     (snd (on_private_message cast s k u pl now db) = s\<lparr>messages := ms, trace := trace s @ tr\<rparr> \<or>
      snd (on_private_message cast s k u pl now db) =
        process_exit (s\<lparr>messages := ms, trace := trace s @ tr\<rparr>))"
proof -
  have form: "\<exists>ms tr. set (targets tr) \<subseteq> insert k (set (map fst (sockets s))) \<and>
     (x = s\<lparr>messages := ms, trace := trace s @ tr\<rparr> \<or>
      x = process_exit (s\<lparr>messages := ms, trace := trace s @ tr\<rparr>))"
    if "set (targets tra) \<subseteq> insert k (set (map fst (sockets s)))"
      and "x = s\<lparr>messages := msa, trace := trace s @ tra\<rparr> \<or>
           x = process_exit (s\<lparr>messages := msa, trace := trace s @ tra\<rparr>)"
    for x msa tra
    using that by blast
  have nil: "set (targets []) \<subseteq> insert k (set (map fst (sockets s)))"
    by simp
  show ?thesis
  proof (cases rule: private_message_cases [where pl = pl and cast = cast and u = u])
    case no_payload
    show ?thesis
      by (rule form [where msa = "messages s", OF nil]) (simp add: no_payload private_message_no_payload)
  next
    case (invalid p)
    show ?thesis
      by (rule form [where msa = "messages s", OF nil])
        (simp add: invalid(1) private_message_invalid [OF invalid(2)])
  next
    case (valid p a t)
    show ?thesis
    proof (cases db)
      case create_fails
      show ?thesis
        by (rule form [where msa = "messages s", OF nil])
          (simp add: valid(1) create_fails private_message_create_fails [OF valid(2,3)])
    next
      case find_fails
      have tr: "set (targets [Created (created_doc s a t p now)]) \<subseteq>
                insert k (set (map fst (sockets s)))"
        by simp
      show ?thesis
        by (rule form [where msa = "messages s @ [created_doc s a t p now]", OF tr])
          (simp add: valid(1) find_fails private_message_find_fails [OF valid(2,3)])
    next
      case db_ok
      let ?tr = "Created (created_doc s a t p now) #
          Emitted k (message_ev (populate (users s) (created_doc s a t p now))) #
          (if truthy (map_of (online s) (String_js (map_of p ''to'')))
           then io_to_emit (sockets s)
                  (or_empty (map_of (online s) (String_js (map_of p ''to''))))
                  (message_ev (populate (users s) (created_doc s a t p now)))
           else [])"
      have tr: "set (targets ?tr) \<subseteq> insert k (set (map fst (sockets s)))"
        by (auto simp: io_to_emit_def)
      show ?thesis
        by (rule form [where msa = "messages s @ [created_doc s a t p now]", OF tr])
          (simp add: valid(1) db_ok private_message_db_ok [OF valid(2,3)])
    qed
  qed
qed

lemma wf_shape:
  assumes "wf s"
  shows "wf (s\<lparr>messages := ms, trace := tr\<rparr>)" "wf (process_exit (s\<lparr>messages := ms, trace := tr\<rparr>))"
  using assms by (simp_all add: wf_def process_exit_def del: map_of_eq_Some_iff)

lemma wf_private_message:
  assumes "wf s"
  shows "wf (snd (on_private_message cast s k u pl now db))"
  using private_message_shape [of k s cast u pl now db] wf_shape [OF assms]
  by metis

lemma wf_on_connection:
  assumes "wf s" "k \<noteq> []" "k \<notin> set (map fst (sockets s))"
  shows "wf (on_connection s k u)"
proof -
  have fresh: "map_of (sockets s) k = None"
    using assms(3) by (simp add: map_of_eq_None_iff)
  have "distinct (map fst (sockets s @ [(k, u)]))"
    using assms by (simp add: wf_def)
  moreover have "distinct (map fst (AList.update (user_id u) k (online s)))"
    using assms(1) by (simp add: wf_def distinct_update)
  moreover have "k' \<noteq> [] \<and> (\<exists>u'. map_of (sockets s @ [(k, u)]) k' = Some u' \<and> user_id u' = i)"
    if "map_of (AList.update (user_id u) k (online s)) i = Some k'" for i k'
  proof (cases "i = user_id u")
    case True
    with that have "k' = k" by (simp add: update_conv')
    with True fresh assms(2) show ?thesis by (simp add: map_add_def)
  next
    case False
    with that have "map_of (online s) i = Some k'" by (simp add: update_conv')
    with assms(1) obtain u' where "k' \<noteq> []" "map_of (sockets s) k' = Some u'" "user_id u' = i"
      unfolding wf_def by blast
    then show ?thesis by (simp add: map_add_def)
  qed
  ultimately show ?thesis
    by (simp add: wf_def on_connection_def Let_def)
qed

lemma wf_on_disconnect:
  assumes "wf s" "map_of (sockets s) k = Some u"
  shows "wf (on_disconnect s k u)"
proof -
  have "distinct (map fst (AList.delete k (sockets s)))"
    using assms(1) by (simp add: wf_def distinct_delete)
  moreover have "distinct (map fst (AList.delete (user_id u) (online s)))"
    using assms(1) by (simp add: wf_def distinct_delete)
  moreover have "k' \<noteq> [] \<and> (\<exists>u'. map_of (AList.delete k (sockets s)) k' = Some u' \<and> user_id u' = i)"
    if "map_of (AList.delete (user_id u) (online s)) i = Some k'" for i k'
  proof -
    from that have ne: "i \<noteq> user_id u" and "map_of (online s) i = Some k'"
      by (auto simp: delete_conv' split: if_splits)
    with assms(1) obtain u' where u': "k' \<noteq> []" "map_of (sockets s) k' = Some u'" "user_id u' = i"
      unfolding wf_def by blast
    with ne assms(2) have "k' \<noteq> k" by auto
    with u' show ?thesis by simp
  qed
  ultimately show ?thesis
    by (simp add: wf_def on_disconnect_def Let_def)
qed

lemma wf_step: "wf s \<Longrightarrow> wf (step verify cast s ev)"
proof (cases ev)
  case (Handshake k h)
  assume "wf s"
  then show ?thesis using Handshake
    by (auto simp: wf_on_connection split: sum.splits)
next
  case (PrivateMessage k pl now db)
  assume "wf s"
  then show ?thesis using PrivateMessage
    by (simp add: wf_private_message split: option.splits)
next
  case (Disconnect k)
  assume "wf s"
  then show ?thesis using Disconnect
    by (auto simp: wf_on_disconnect split: option.splits)
qed

lemma wf_run: "wf s \<Longrightarrow> wf (run verify cast s evs)"
  by (induction evs arbitrary: s) (simp_all add: wf_step)

lemma wf_reachable: "wf (run verify cast (init ms us) evs)"
  by (simp add: wf_run wf_init)

lemma wf_distinct_sockets: "wf s \<Longrightarrow> distinct (map fst (sockets s))"
  by (simp add: wf_def)

text \<open>A socket id the server has nothing of stays so under every event that does not
  admit it.\<close>

lemma targets_append [simp]: "targets (xs @ ys) = targets xs @ targets ys"
  by (induction xs rule: targets.induct) simp_all

lemma targets_io_emit [simp]: "targets (io_emit socks ev) = map fst socks"
  by (induction socks) (simp_all add: io_emit_def)

lemma snd_update_subset: "set (map snd (AList.update i v al)) \<subseteq> insert v (set (map snd al))"
  by (induction al) auto

lemma snd_delete_subset: "set (map snd (AList.delete i al)) \<subseteq> set (map snd al)"
  by (induction al) auto

lemma fst_delete_subset: "set (map fst (AList.delete i al)) \<subseteq> set (map fst al)"
  by (induction al) auto

lemma unknown_shape:
  assumes "unknown s k'" "k' \<notin> set (targets tr)"
  shows "unknown (s\<lparr>messages := ms, trace := trace s @ tr\<rparr>) k'"
    "unknown (process_exit (s\<lparr>messages := ms, trace := trace s @ tr\<rparr>)) k'"
  using assms by (simp_all add: unknown_def process_exit_def)

lemma unknown_private_message:
  assumes "unknown s k'" "map_of (sockets s) k = Some u"
  shows "unknown (snd (on_private_message cast s k u pl now db)) k'"
proof -
  have kin: "k \<in> set (map fst (sockets s))"
    using assms(2) by (metis map_of_eq_None_iff option.distinct(1) set_map)
  obtain ms tr where tr: "set (targets tr) \<subseteq> insert k (set (map fst (sockets s)))"
    and sh: "snd (on_private_message cast s k u pl now db) = s\<lparr>messages := ms, trace := trace s @ tr\<rparr> \<or>
      snd (on_private_message cast s k u pl now db) =
        process_exit (s\<lparr>messages := ms, trace := trace s @ tr\<rparr>)"
    using private_message_shape [of k s cast u pl now db] by blast
  from tr kin assms(1) have "k' \<notin> set (targets tr)"
    unfolding unknown_def by blast
  with sh unknown_shape [OF assms(1)] show ?thesis by metis
qed

lemma unknown_on_connection:
  assumes "unknown s k" "k' \<noteq> k"
  shows "unknown (on_connection s k' u) k"
proof -
  have "k \<notin> set (map snd (AList.update (user_id u) k' (online s)))"
    using assms snd_update_subset [of "user_id u" k' "online s"]
    by (auto simp: unknown_def)
  with assms show ?thesis
    by (simp add: unknown_def on_connection_def Let_def)
qed

lemma unknown_on_disconnect:
  assumes "unknown s k"
  shows "unknown (on_disconnect s k' u) k"
proof -
  have "k \<notin> set (map snd (AList.delete (user_id u) (online s)))"
    using assms snd_delete_subset [of "user_id u" "online s"]
    by (auto simp: unknown_def)
  moreover have "k \<notin> set (map fst (AList.delete k' (sockets s)))"
    using assms fst_delete_subset [of k' "sockets s"]
    by (auto simp: unknown_def)
  ultimately show ?thesis
    using assms by (simp add: unknown_def on_disconnect_def Let_def)
qed

lemma unknown_step:
  assumes "unknown s k" "never_admitted verify k [ev]"
  shows "unknown (step verify cast s ev) k"
proof (cases ev)
  case (Handshake k' h)
  show ?thesis
  proof (cases "k' = k")
    case True
    with assms Handshake show ?thesis by (auto simp: isl_def)
  next
    case False
    with assms(1) Handshake show ?thesis
      by (simp add: unknown_on_connection split: sum.splits)
  qed
next
  case (PrivateMessage k' pl now db)
  with assms(1) show ?thesis
    by (simp add: unknown_private_message split: option.splits)
next
  case (Disconnect k')
  with assms(1) show ?thesis
    by (simp add: unknown_on_disconnect split: option.splits)
qed

lemma unknown_run:
  "unknown s k \<Longrightarrow> never_admitted verify k evs \<Longrightarrow> unknown (run verify cast s evs) k"
proof (induction evs arbitrary: s)
  case Nil
  then show ?case by simp
next
  case (Cons e es)
  have "never_admitted verify k [e]" "never_admitted verify k es"
    using Cons.prems(2) by (cases e; simp)+
  with Cons show ?case by (simp add: unknown_step)
qed

text \<open>A socket stays bound to the identity verified at its handshake for as long as it is
  connected.\<close>

lemma private_message_sockets:
  "sockets (snd (on_private_message cast s k u pl now db)) = sockets s \<or>
   sockets (snd (on_private_message cast s k u pl now db)) = []"
proof -
  obtain ms tr where
    "snd (on_private_message cast s k u pl now db) = s\<lparr>messages := ms, trace := trace s @ tr\<rparr> \<or>
     snd (on_private_message cast s k u pl now db) =
       process_exit (s\<lparr>messages := ms, trace := trace s @ tr\<rparr>)"
    using private_message_shape [of k s cast u pl now db] by blast
  then show ?thesis
    by (auto simp: process_exit_def)
qed

lemma socket_user_stable:
  assumes "map_of (sockets s) k = Some u" "k \<in> set (map fst (sockets (step verify cast s ev)))"
  shows "map_of (sockets (step verify cast s ev)) k = Some u"
proof (cases ev)
  case (Handshake k' h)
  have "k \<in> set (map fst (sockets s))"
    using assms(1) by (metis map_of_eq_None_iff option.distinct(1) set_map)
  with assms(1) Handshake show ?thesis
    by (auto simp: on_connection_def Let_def map_add_def split: sum.splits)
next
  case (PrivateMessage k' pl now db)
  show ?thesis
  proof (cases "map_of (sockets s) k'")
    case None
    with assms(1) PrivateMessage show ?thesis by simp
  next
    case (Some u')
    with PrivateMessage have st: "step verify cast s ev = snd (on_private_message cast s k' u' pl now db)"
      by simp
    from assms(2) have "sockets (step verify cast s ev) \<noteq> []" by auto
    with private_message_sockets [of cast s k' u' pl now db] st
    have "sockets (step verify cast s ev) = sockets s" by simp
    with assms(1) show ?thesis by simp
  qed
next
  case (Disconnect k')
  show ?thesis
  proof (cases "map_of (sockets s) k'")
    case None
    with assms(1) Disconnect show ?thesis by simp
  next
    case (Some u')
    with Disconnect have st: "sockets (step verify cast s ev) = AList.delete k' (sockets s)"
      by (simp add: on_disconnect_def Let_def)
    have "k' \<noteq> k"
      using assms(2) delete_notin_dom [of k' "sockets s"] unfolding st by auto
    with assms(1) show ?thesis unfolding st by simp
  qed
qed

lemma stays_open_bound:
  "map_of (sockets s) k = Some u \<Longrightarrow> stays_open verify cast s k evs \<Longrightarrow>
   map_of (sockets (run verify cast s evs)) k = Some u"
proof (induction evs arbitrary: s)
  case Nil
  then show ?case by simp
next
  case (Cons e es)
  from Cons.prems(2) have open': "stays_open verify cast (step verify cast s e) k es"
    by simp
  then have "k \<in> set (map fst (sockets (step verify cast s e)))"
    by (cases es) simp_all
  with Cons.prems(1) have "map_of (sockets (step verify cast s e)) k = Some u"
    by (rule socket_user_stable)
  with open' Cons.IH show ?case by simp
qed

lemma handshake_binds_user:
  assumes "io_use verify h = Inr u" "k \<noteq> []" "k \<notin> set (map fst (sockets s))"
  shows "map_of (sockets (step verify cast s (Handshake k h))) k = Some u"
proof -
  have "map_of (sockets s) k = None"
    using assms(3) by (simp add: map_of_eq_None_iff)
  with assms show ?thesis
    by (simp add: on_connection_def Let_def map_add_def)
qed

lemma step_accepted_handshake:
  assumes "io_use verify h = Inr u" "k \<noteq> []" "k \<notin> set (map fst (sockets s))"
  shows "step verify cast s (Handshake k h) = on_connection s k u"
  using assms by simp

lemma step_disconnect:
  assumes "map_of (sockets s) k = Some u"
  shows "step verify cast s (Disconnect k) = on_disconnect s k u"
  using assms by simp

text \<open>Reading the effects of the two kinds of emission.\<close>

lemma creations_io_to_emit [simp]: "creations (io_to_emit socks r ev) = []"
  by (simp add: io_to_emit_def)

lemma delivered_append [simp]: "delivered k (xs @ ys) = delivered k xs @ delivered k ys"
  by (induction k xs rule: delivered.induct) simp_all

lemma presence_append [simp]: "presence k (xs @ ys) = presence k xs @ presence k ys"
  by (induction k xs rule: presence.induct) simp_all

lemma delivered_io_emit_presence [simp]: "delivered k (io_emit socks (online_users ids)) = []"
  by (induction socks) (simp_all add: io_emit_def)

lemma presence_io_emit:
  "distinct (map fst socks) \<Longrightarrow>
   presence k (io_emit socks (online_users ids)) = (if k \<in> set (map fst socks) then [ids] else [])"
proof (induction socks)
  case Nil
  then show ?case by (simp add: io_emit_def)
next
  case (Cons a socks)
  then have "presence k (io_emit socks (online_users ids)) =
             (if k \<in> set (map fst socks) then [ids] else [])"
    by simp
  moreover have "io_emit (a # socks) (online_users ids) =
                 Emitted (fst a) (online_users ids) # io_emit socks (online_users ids)"
    by (simp add: io_emit_def)
  ultimately show ?case
    using Cons.prems by auto
qed

lemma new_effects_append [simp]:
  "trace s' = trace s @ xs \<Longrightarrow> new_effects s s' = xs"
  by (simp add: new_effects_def)

lemma new_effects_exit [simp]: "new_effects s (process_exit s) = []"
  by (simp add: new_effects_def process_exit_def)

lemma delivered_io_to_emit:
  "delivered k (io_to_emit socks r (message_ev pop)) =
     (if r = k \<and> k \<in> set (map fst socks) then [pop] else [])"
  by (simp add: io_to_emit_def)

lemma connection_effects:
  "new_effects s (on_connection s k u) =
     io_emit (sockets (on_connection s k u)) (online_users (map fst (online (on_connection s k u))))"
  by (simp add: on_connection_def Let_def)

lemma disconnect_effects:
  "new_effects s (on_disconnect s k u) =
     io_emit (sockets (on_disconnect s k u)) (online_users (map fst (online (on_disconnect s k u))))"
  by (simp add: on_disconnect_def Let_def)

text \<open>What a valid send that the database accepts emits, in a consistent state: to the
  sender, and to the socket that \<open>online\<close> holds under \<open>String(to)\<close>.\<close>

lemma accepted_send_effects:
  assumes "wf s" "cast (user_id u) = Some a" "cast_path cast (map_of p ''to'') = Some t"
  shows "new_effects s (snd (on_private_message cast s k u (Some p) now db_ok)) =
     Created (created_doc s a t p now) #
     Emitted k (message_ev (populate (users s) (created_doc s a t p now))) #
     (case map_of (online s) (String_js (map_of p ''to'')) of
        None \<Rightarrow> []
      | Some r \<Rightarrow> [Emitted r (message_ev (populate (users s) (created_doc s a t p now)))])"
proof (cases "map_of (online s) (String_js (map_of p ''to''))")
  case None
  then show ?thesis
    by (simp add: private_message_db_ok [OF assms(2,3)] truthy_def)
next
  case (Some r)
  with assms(1) obtain u' where "r \<noteq> []" "map_of (sockets s) r = Some u'"
    unfolding wf_def by blast
  then have "r \<noteq> []" "r \<in> set (map fst (sockets s))"
    by (simp_all, metis map_of_eq_None_iff option.distinct(1))
  with Some show ?thesis
    by (simp add: private_message_db_ok [OF assms(2,3)] truthy_def or_empty_def io_to_emit_def)
qed

text \<open>Open sessions and the keys of \<open>online\<close>.\<close>

lemma open_sessions_iff:
  "k \<in> set (open_sessions s i) \<longleftrightarrow> (\<exists>u. (k, u) \<in> set (sockets s) \<and> user_id u = i)"
  by (force simp: open_sessions_def)

lemma open_sessions_nonempty_iff:
  "open_sessions s i \<noteq> [] \<longleftrightarrow> (\<exists>k u. (k, u) \<in> set (sockets s) \<and> user_id u = i)"
proof -
  have "open_sessions s i \<noteq> [] \<longleftrightarrow> (\<exists>k. k \<in> set (open_sessions s i))"
    by (cases "open_sessions s i") auto
  then show ?thesis by (simp add: open_sessions_iff)
qed

lemma set_delete: "set (AList.delete k al) = {e \<in> set al. fst e \<noteq> k}"
  by (induction al) auto

lemma keys_update: "fst ` set (AList.update i v al) = insert i (fst ` set al)"
  by (simp add: dom_update)

lemma keys_delete: "fst ` set (AList.delete i al) = fst ` set al - {i}"
  using delete_keys [of i al] by (metis set_map set_removeAll)

lemma wf_online_has_session:
  assumes "wf s" "isOnline s i"
  shows "open_sessions s i \<noteq> []"
proof -
  from assms(2) obtain k where "map_of (online s) i = Some k"
    unfolding isOnline_def by (metis map_of_eq_None_iff not_Some_eq set_map)
  with assms(1) obtain u where "map_of (sockets s) k = Some u" "user_id u = i"
    unfolding wf_def by blast
  then have "(k, u) \<in> set (sockets s)" by (simp add: map_of_SomeD)
  with \<open>user_id u = i\<close> show ?thesis
    unfolding open_sessions_nonempty_iff by blast
qed

lemma covered_init: "covered (init ms us)"
  by (simp add: covered_def init_def)

lemma covered_private_message:
  assumes "covered s"
  shows "covered (snd (on_private_message cast s k u pl now db))"
proof -
  obtain ms tr where
    "snd (on_private_message cast s k u pl now db) = s\<lparr>messages := ms, trace := trace s @ tr\<rparr> \<or>
     snd (on_private_message cast s k u pl now db) =
       process_exit (s\<lparr>messages := ms, trace := trace s @ tr\<rparr>)"
    using private_message_shape [of k s cast u pl now db] by blast
  with assms show ?thesis
    by (auto simp: covered_def process_exit_def)
qed

lemma covered_step:
  assumes "covered s" "one_session_each s" "wf s"
  shows "covered (step verify cast s ev)"
proof (cases ev)
  case (Handshake k h)
  show ?thesis
  proof (cases "k = [] \<or> k \<in> set (map fst (sockets s)) \<or> isl (io_use verify h)")
    case True
    with assms(1) Handshake show ?thesis by (auto simp: isl_def)
  next
    case False
    then obtain u where u: "io_use verify h = Inr u"
      by (cases "io_use verify h") simp_all
    with False Handshake have st: "step verify cast s ev = on_connection s k u" by simp
    show ?thesis
      unfolding st covered_def using assms(1)
      by (auto simp: on_connection_def Let_def keys_update covered_def)
  qed
next
  case (PrivateMessage k pl now db)
  with assms(1) show ?thesis
    by (simp add: covered_private_message split: option.splits)
next
  case (Disconnect k)
  show ?thesis
  proof (cases "map_of (sockets s) k")
    case None
    with assms(1) Disconnect show ?thesis by simp
  next
    case (Some u)
    with Disconnect have st: "step verify cast s ev = on_disconnect s k u" by simp
    have ku: "(k, u) \<in> set (sockets s)" using Some by (simp add: map_of_SomeD)
    have "user_id u' \<in> set (map fst (AList.delete (user_id u) (online s)))"
      if "(k', u') \<in> set (AList.delete k (sockets s))" for k' u'
    proof -
      from that have in': "(k', u') \<in> set (sockets s)" and ne: "k' \<noteq> k"
        by (auto simp: set_delete)
      have "user_id u' \<noteq> user_id u"
      proof
        assume eq: "user_id u' = user_id u"
        from assms(2) have "inj_on (\<lambda>e. user_id (snd e)) (set (sockets s))"
          unfolding one_session_each_def by (simp add: distinct_map)
        with in' ku eq have "(k', u') = (k, u)"
          by (auto dest!: inj_onD [where x = "(k', u')" and y = "(k, u)"])
        with ne show False by simp
      qed
      moreover from assms(1) in' have "user_id u' \<in> set (map fst (online s))"
        unfolding covered_def by blast
      ultimately show ?thesis by (simp add: keys_delete)
    qed
    then show ?thesis
      unfolding st covered_def by (simp add: on_disconnect_def Let_def)
  qed
qed

lemma covered_run:
  "covered s \<Longrightarrow> wf s \<Longrightarrow> single_session_run verify cast s evs \<Longrightarrow>
   covered (run verify cast s evs)"
proof (induction evs arbitrary: s)
  case Nil
  then show ?case by simp
next
  case (Cons e es)
  then have "covered (step verify cast s e)" "wf (step verify cast s e)"
    by (simp_all add: covered_step wf_step)
  with Cons show ?case by simp
qed

lemma disconnect_offline:
  assumes "map_of (sockets s) k = Some u"
  shows "\<not> isOnline (step verify cast s (Disconnect k)) (user_id u)"
  using assms by (simp add: isOnline_def on_disconnect_def Let_def keys_delete)

lemma disconnect_keeps_other:
  assumes "map_of (sockets s) k = Some u" "(k', u') \<in> set (sockets s)" "k' \<noteq> k"
  shows "(k', u') \<in> set (sockets (step verify cast s (Disconnect k)))"
  using assms by (simp add: on_disconnect_def Let_def set_delete)

lemma filter_key_unique:
  "distinct (map fst al) \<Longrightarrow> map_of al i = Some v \<Longrightarrow> filter (\<lambda>e. fst e = i) al = [(i, v)]"
proof (induction al)
  case Nil
  then show ?case by simp
next
  case (Cons a al)
  show ?case
  proof (cases "fst a = i")
    case True
    with Cons.prems have "a = (i, v)" by (cases a) simp
    moreover from Cons.prems True have "i \<notin> fst ` set al" by auto
    then have "filter (\<lambda>e. fst e = i) al = []"
      by (auto simp: filter_empty_conv)
    ultimately show ?thesis by simp
  next
    case False
    with Cons show ?thesis by (cases a) auto
  qed
qed

text \<open>The answer of the messages route.\<close>

lemma authMiddleware_cases:
  "authMiddleware verify req =
     (if \<not> truthy (authorization req) then Inl no_token
      else (case index (split CHR '' '' (or_empty (authorization req))) 1 of
              None \<Rightarrow> Inl invalid_token
            | Some token \<Rightarrow> (case verify token of None \<Rightarrow> Inl invalid_token | Some u \<Rightarrow> Inr u)))"
  by (simp add: authMiddleware_def Let_def)

lemma get_messages_ok:
  assumes "authMiddleware verify req = Inr u" "query_with req = Some other" "other \<noteq> []"
    and "cast (user_id u) = Some me" "cast other = Some oth"
  shows "get_messages verify cast s req =
           Inr (take 100 (sort_key msg_createdAt (filter (between me oth) (messages s))))"
  using assms by (simp add: get_messages_def Let_def truthy_def or_empty_def)

lemma get_messages_rejected:
  "authMiddleware verify req = Inl e \<Longrightarrow> get_messages verify cast s req = Inl e"
  by (simp add: get_messages_def)

lemma get_messages_Inr:
  assumes "get_messages verify cast s req = Inr hist"
  obtains u other me oth where "authMiddleware verify req = Inr u" "query_with req = Some other"
    "other \<noteq> []" "cast (user_id u) = Some me" "cast other = Some oth"
  using assms
  by (auto simp: get_messages_def Let_def truthy_def or_empty_def
      split: sum.splits option.splits if_splits)

lemma take_sorted_oldest:
  assumes "sorted (map f xs)" "a \<in> set (take n xs)" "b \<in> set xs" "b \<notin> set (take n xs)"
  shows "f a \<le> f b"
proof -
  have "set xs = set (take n xs) \<union> set (drop n xs)"
    by (metis append_take_drop_id set_append)
  with assms(3,4) have b: "b \<in> set (drop n xs)" by blast
  have "sorted (map f (take n xs) @ map f (drop n xs))"
    using assms(1) by (metis append_take_drop_id map_append)
  with assms(2) b show ?thesis
    by (auto simp: sorted_append)
qed

lemma get_messages_contains:
  assumes "authMiddleware verify req = Inr u" "query_with req = Some other" "other \<noteq> []"
    and "cast (user_id u) = Some me" "cast other = Some oth"
    and "m \<in> set (messages s)" "between me oth m"
    and "length (filter (between me oth) (messages s)) \<le> 100"
  shows "\<exists>hist. get_messages verify cast s req = Inr hist \<and> m \<in> set hist"
  using assms by (simp add: get_messages_ok)

section \<open>Rejected connection attempts\<close>

text \<open>
  Claim C5. A connection attempt whose credential is missing (no truthy token in
  \<open>handshake.auth\<close> or \<open>handshake.query\<close>) or invalid (\<open>jwt.verify\<close> gives an error) is
  rejected by \<open>io.use\<close>, and the state is exactly what it was: nothing is added to
  \<open>online\<close>, nothing is broadcast. As long as no attempt under that socket id is admitted,
  the id is no connected socket, no value of \<open>online\<close>, and no target of any emitted
  event, whatever else happens.
\<close>

theorem rejected_connection_is_never_registered:
  assumes "\<not> truthy (js_or (auth_token h) (query_token h)) \<or>
           verify (or_empty (js_or (auth_token h) (query_token h))) = None"
  shows "isl (io_use verify h) \<and>
         step verify cast s (Handshake k h) = s \<and>
         (unknown s k \<and> never_admitted verify k evs \<longrightarrow>
            unknown (run verify cast s (Handshake k h # evs)) k)"
proof -
  have rej: "isl (io_use verify h)"
    using assms by (auto simp: io_use_def Let_def)
  then have "step verify cast s (Handshake k h) = s"
    by (auto simp: isl_def)
  with rej show ?thesis
    by (simp add: unknown_run)
qed

text \<open>The sample run for C5: an attempt with a forged token under the id \<open>s9\<close>, then \<open>u1\<close>
  connects and sends a message.\<close>

theorem rejected_connection_witness:
  "step sample_verify hex_cast (init [] sample_users) (Handshake ''s9'' (bearer ''forged'')) =
     init [] sample_users \<and>
   unknown (run sample_verify hex_cast (init [] sample_users)
       (Handshake ''s9'' (bearer ''forged'') #
        [Handshake ''s1'' (bearer ''t1''),
         PrivateMessage ''s1'' (Some [(''to'', id1), (''text'', ''hi'')]) 3 db_ok])) ''s9''"
proof -
  have a: "sample_verify (or_empty (js_or (auth_token (bearer ''forged''))
             (query_token (bearer ''forged'')))) = None"
    by code_simp
  have b: "unknown (init [] sample_users) ''s9''"
    by code_simp
  have c: "never_admitted sample_verify ''s9'' [Handshake ''s1'' (bearer ''t1''),
        PrivateMessage ''s1'' (Some [(''to'', id1), (''text'', ''hi'')]) 3 db_ok]"
    by code_simp
  note T = rejected_connection_is_never_registered
      [where h = "bearer ''forged''" and verify = sample_verify and cast = hex_cast
         and s = "init [] sample_users" and k = "''s9''"
         and evs = "[Handshake ''s1'' (bearer ''t1''),
            PrivateMessage ''s1'' (Some [(''to'', id1), (''text'', ''hi'')]) 3 db_ok]",
       OF disjI2 [OF a]]
  show ?thesis
    by (rule conjI [OF T [THEN conjunct2, THEN conjunct1]
          T [THEN conjunct2, THEN conjunct2, THEN mp, OF conjI [OF b c]]])
qed

section \<open>The sender identity of a persisted message\<close>

text \<open>
  Claim C9. Let \<open>io.use\<close> verify the credential of the connection \<open>k\<close> to the identity
  \<open>u\<close>, and let \<open>k\<close> stay connected through any further events. Then a \<open>private_message\<close>
  on \<open>k\<close> with an arbitrary payload \<open>p\<close> either appends nothing or appends exactly one
  document, and the \<open>from\<close> of that document is the ObjectId that \<open>user_id u\<close> casts to.
  It appends one whenever the send is accepted, that is, the ids cast and the database
  does the insert. Whatever properties the payload carries, a \<open>from\<close> among them, the
  stored sender is the verified identity.
\<close>

theorem persisted_from_is_session_identity:
  assumes "io_use verify h = Inr u"
    and "k \<noteq> []" and "k \<notin> set (map fst (sockets s))"
    and "stays_open verify cast (step verify cast s (Handshake k h)) k evs"
  shows "(messages (run verify cast s (Handshake k h # evs @ [PrivateMessage k (Some p) now db])) =
            messages (run verify cast s (Handshake k h # evs)) \<or>
          (\<exists>m. messages (run verify cast s
                   (Handshake k h # evs @ [PrivateMessage k (Some p) now db])) =
                 messages (run verify cast s (Handshake k h # evs)) @ [m] \<and>
               cast (user_id u) = Some (msg_from m))) \<and>
         (db \<noteq> create_fails \<and> cast (user_id u) \<noteq> None \<and>
          cast_path cast (map_of p ''to'') \<noteq> None \<longrightarrow>
          (\<exists>m. messages (run verify cast s
                   (Handshake k h # evs @ [PrivateMessage k (Some p) now db])) =
                 messages (run verify cast s (Handshake k h # evs)) @ [m] \<and>
               cast (user_id u) = Some (msg_from m)))"
proof -
  let ?s = "run verify cast s (Handshake k h # evs)"
  let ?after = "run verify cast s (Handshake k h # evs @ [PrivateMessage k (Some p) now db])"
  have "map_of (sockets (step verify cast s (Handshake k h))) k = Some u"
    using assms(1-3) by (rule handshake_binds_user)
  then have "map_of (sockets (run verify cast (step verify cast s (Handshake k h)) evs)) k = Some u"
    using assms(4) by (rule stays_open_bound)
  then have bound: "map_of (sockets ?s) k = Some u"
    by (simp only: run.simps)
  have eq: "?after = snd (on_private_message cast ?s k u (Some p) now db)"
    using bound
      run_append [of verify cast s "Handshake k h # evs" "[PrivateMessage k (Some p) now db]"]
    by simp
  have invalid: "messages ?after = messages ?s"
    if "cast (user_id u) = None \<or> cast_path cast (map_of p ''to'') = None"
    unfolding eq by (simp add: private_message_invalid [OF that] process_exit_def)
  have valid: "(db = create_fails \<longrightarrow> messages ?after = messages ?s) \<and>
      (db \<noteq> create_fails \<longrightarrow>
         messages ?after = messages ?s @ [created_doc ?s a t p now] \<and>
         cast (user_id u) = Some (msg_from (created_doc ?s a t p now)))"
    if c: "cast (user_id u) = Some a" "cast_path cast (map_of p ''to'') = Some t" for a t
  proof (cases db)
    case create_fails
    then show ?thesis
      unfolding eq by (simp add: private_message_create_fails [OF c] process_exit_def)
  next
    case find_fails
    then show ?thesis
      unfolding eq
      by (simp add: private_message_find_fails [OF c] process_exit_def c(1) created_doc_def)
  next
    case db_ok
    then show ?thesis
      unfolding eq by (simp add: private_message_db_ok [OF c] c(1) created_doc_def)
  qed
  show ?thesis
  proof (cases "cast (user_id u) = None \<or> cast_path cast (map_of p ''to'') = None")
    case True
    with invalid show ?thesis by auto
  next
    case False
    then obtain a t where c: "cast (user_id u) = Some a" "cast_path cast (map_of p ''to'') = Some t"
      by auto
    from valid [OF c] show ?thesis by (cases "db = create_fails") blast+
  qed
qed

text \<open>The sample run for C9: \<open>u1\<close> sends a payload that names \<open>u2\<close> as its \<open>from\<close>.\<close>

theorem persisted_from_witness:
  "\<exists>m. messages (run sample_verify hex_cast (init [] sample_users)
          (Handshake ''s1'' (bearer ''t1'') # [Handshake ''s2'' (bearer ''t2'')] @
           [PrivateMessage ''s1''
              (Some [(''from'', id2), (''to'', id2), (''text'', ''hi'')]) 5 db_ok])) =
        messages (run sample_verify hex_cast (init [] sample_users)
          (Handshake ''s1'' (bearer ''t1'') # [Handshake ''s2'' (bearer ''t2'')])) @ [m] \<and>
        hex_cast (user_id sample_u1) = Some (msg_from m)"
proof -
  have a: "io_use sample_verify (bearer ''t1'') = Inr sample_u1"
    by code_simp
  have b: "''s1'' \<noteq> []" "''s1'' \<notin> set (map fst (sockets (init [] sample_users)))"
    "stays_open sample_verify hex_cast
       (step sample_verify hex_cast (init [] sample_users) (Handshake ''s1'' (bearer ''t1'')))
       ''s1'' [Handshake ''s2'' (bearer ''t2'')]"
    by code_simp+
  have c: "db_ok \<noteq> create_fails \<and> hex_cast (user_id sample_u1) \<noteq> None \<and>
           cast_path hex_cast (map_of [(''from'', id2), (''to'', id2), (''text'', ''hi'')] ''to'') \<noteq> None"
    by code_simp
  show ?thesis
    by (rule persisted_from_is_session_identity [OF a b, THEN conjunct2, THEN mp, OF c])
qed

section \<open>A rejected append\<close>

text \<open>
  Claim C4 asks that a failed append fail the operation, deliver nothing and leave the
  sender's session active. On the code, at the failing input: with \<open>u1\<close> and \<open>u2\<close>
  connected, \<open>u1\<close> sends to \<open>u2\<close> and \<open>Message.create\<close> is rejected. The listener ends with
  that rejection, nothing is stored and nothing is emitted; but the listener has no
  \<open>try\<close> (as the routes \<open>/api/register\<close> and \<open>/api/login\<close> have), the process ends, and
  the session of \<open>u1\<close>, open before, is open no more. With the database working, the
  append is the first effect and the emissions to \<open>s1\<close> and \<open>s2\<close> follow it.
\<close>

theorem rejected_append_ends_the_process:
  "on_private_message hex_cast sample_both ''s1'' sample_u1 (Some sample_intent) 5 create_fails =
     (Some create_rejected, process_exit sample_both) \<and>
   open_sessions sample_both id1 = [''s1''] \<and>
   open_sessions
     (step sample_verify hex_cast sample_both
        (PrivateMessage ''s1'' (Some sample_intent) 5 create_fails)) id1 = [] \<and>
   sockets
     (step sample_verify hex_cast sample_both
        (PrivateMessage ''s1'' (Some sample_intent) 5 create_fails)) = [] \<and>
   new_effects sample_both
     (step sample_verify hex_cast sample_both
        (PrivateMessage ''s1'' (Some sample_intent) 5 create_fails)) = [] \<and>
   messages
     (step sample_verify hex_cast sample_both
        (PrivateMessage ''s1'' (Some sample_intent) 5 create_fails)) = messages sample_both \<and>
   targets (new_effects sample_both
     (step sample_verify hex_cast sample_both
        (PrivateMessage ''s1'' (Some sample_intent) 5 db_ok))) = [''s1'', ''s2''] \<and>
   new_effects sample_both
     (step sample_verify hex_cast sample_both
        (PrivateMessage ''s1'' (Some sample_intent) 5 db_ok)) =
     [Created (created_doc sample_both (ObjectId id1) (Some (ObjectId id2)) sample_intent 5),
      Emitted ''s1'' (message_ev (populate sample_users
         (created_doc sample_both (ObjectId id1) (Some (ObjectId id2)) sample_intent 5))),
      Emitted ''s2'' (message_ev (populate sample_users
         (created_doc sample_both (ObjectId id1) (Some (ObjectId id2)) sample_intent 5)))]"
  by code_simp

section \<open>A send-intent without text and media\<close>

text \<open>
  Claim C3, as the code has it. The listener does not look at what the payload carries: a
  payload with neither a \<open>text\<close> nor a \<open>mediaUrl\<close> property is handled like any other. In
  every reachable state, when the ids cast and the database works, the listener ends
  without error; exactly one document is appended, with the empty text and a \<open>null\<close>
  \<open>mediaUrl\<close>; the \<open>message\<close> event for it is written to the sender's socket and, when
  \<open>online\<close> has an entry under \<open>String(to)\<close>, to the socket of that entry, and to no other
  socket; and the sockets and the presence map are unchanged.
\<close>

theorem empty_intent_is_persisted_and_delivered:
  assumes "s = run verify cast (init ms us) evs"
    and "map_of (sockets s) k = Some u"
    and "map_of p ''text'' = None" and "map_of p ''mediaUrl'' = None"
    and "cast (user_id u) = Some a" and "cast_path cast (map_of p ''to'') = Some t"
    and "s' = step verify cast s (PrivateMessage k (Some p) now db_ok)"
    and "m = created_doc s a t p now"
    and "pop = populate (users s) m"
  shows "fst (on_private_message cast s k u (Some p) now db_ok) = None \<and>
         messages s' = messages s @ [m] \<and>
         msg_from m = a \<and> msg_to m = t \<and> msg_text m = [] \<and> msg_mediaUrl m = None \<and>
         new_effects s s' =
           Created m # Emitted k (message_ev pop) #
           (case map_of (online s) (String_js (map_of p ''to'')) of
              None \<Rightarrow> []
            | Some r \<Rightarrow> [Emitted r (message_ev pop)]) \<and>
         sockets s' = sockets s \<and> online s' = online s"
proof -
  have wf: "wf s" using assms(1) by (simp add: wf_reachable)
  have st: "s' = snd (on_private_message cast s k u (Some p) now db_ok)"
    using assms(2,7) by simp
  have fields: "msg_from m = a" "msg_to m = t" "msg_text m = []" "msg_mediaUrl m = None"
    unfolding assms(8) using assms(3,4)
    by (simp_all add: created_doc_def or_empty_def or_null_def truthy_def)
  have eff: "new_effects s s' =
           Created m # Emitted k (message_ev pop) #
           (case map_of (online s) (String_js (map_of p ''to'')) of
              None \<Rightarrow> []
            | Some r \<Rightarrow> [Emitted r (message_ev pop)])"
    unfolding st assms(8,9) by (rule accepted_send_effects [OF wf assms(5,6)])
  have rest: "fst (on_private_message cast s k u (Some p) now db_ok) = None"
    "messages s' = messages s @ [m]" "sockets s' = sockets s" "online s' = online s"
    unfolding st assms(8) by (simp_all add: private_message_db_ok [OF assms(5,6)])
  from fields eff rest show ?thesis by simp
qed

text \<open>The sample run for the amended C3: with \<open>u2\<close> connected on \<open>s2\<close>, \<open>u1\<close> sends
  \<open>{to: u2}\<close>.\<close>

theorem empty_intent_witness:
  "new_effects sample_both
      (step sample_verify hex_cast sample_both (PrivateMessage ''s1'' (Some [(''to'', id2)]) 7 db_ok)) =
     Created (created_doc sample_both (ObjectId id1) (Some (ObjectId id2)) [(''to'', id2)] 7) #
     Emitted ''s1'' (message_ev (populate (users sample_both)
        (created_doc sample_both (ObjectId id1) (Some (ObjectId id2)) [(''to'', id2)] 7))) #
     (case map_of (online sample_both) (String_js (map_of [(''to'', id2)] ''to'')) of
        None \<Rightarrow> []
      | Some r \<Rightarrow> [Emitted r (message_ev (populate (users sample_both)
          (created_doc sample_both (ObjectId id1) (Some (ObjectId id2)) [(''to'', id2)] 7)))]) \<and>
   msg_text (created_doc sample_both (ObjectId id1) (Some (ObjectId id2)) [(''to'', id2)] 7) = [] \<and>
   sockets (step sample_verify hex_cast sample_both
      (PrivateMessage ''s1'' (Some [(''to'', id2)]) 7 db_ok)) = sockets sample_both \<and>
   map_of (online sample_both) (String_js (map_of [(''to'', id2)] ''to'')) = Some ''s2''"
proof -
  have a: "map_of (sockets sample_both) ''s1'' = Some sample_u1"
    "map_of [(''to'', id2)] ''text'' = None"
    "map_of [(''to'', id2)] ''mediaUrl'' = None"
    "hex_cast (user_id sample_u1) = Some (ObjectId id1)"
    "cast_path hex_cast (map_of [(''to'', id2)] ''to'') = Some (Some (ObjectId id2))"
    by code_simp+
  have b: "map_of (online sample_both) (String_js (map_of [(''to'', id2)] ''to'')) = Some ''s2''"
    by code_simp
  note T = empty_intent_is_persisted_and_delivered
      [where now = 7, OF sample_both_def a refl refl refl]
  from T b show ?thesis by blast
qed

text \<open>
  Claim C3 as stated fails: with \<open>u1\<close> and \<open>u2\<close> connected, \<open>u1\<close> sends \<open>{to: u2}\<close>. The
  listener ends without error, the collection holds the new document, the sockets of
  \<open>u1\<close> and of \<open>u2\<close> have each received its \<open>message\<close> event, and \<open>u1\<close> is still connected.
\<close>

theorem empty_intent_counterexample:
  "fst (on_private_message hex_cast sample_both ''s1'' sample_u1 (Some [(''to'', id2)]) 7 db_ok) =
     None \<and>
   messages (step sample_verify hex_cast sample_both
      (PrivateMessage ''s1'' (Some [(''to'', id2)]) 7 db_ok)) =
     [\<lparr>msg_id = 0, msg_from = ObjectId id1, msg_to = Some (ObjectId id2), msg_text = [],
       msg_mediaUrl = None, msg_mediaType = None, msg_createdAt = 7\<rparr>] \<and>
   delivered ''s1'' (new_effects sample_both (step sample_verify hex_cast sample_both
      (PrivateMessage ''s1'' (Some [(''to'', id2)]) 7 db_ok))) =
     [\<lparr>pop_id = 0,
       pop_from = Some \<lparr>from_id = ObjectId id1, from_email = ''u1@example.org'',
                        from_displayName = ''One''\<rparr>,
       pop_to = Some (ObjectId id2), pop_text = [], pop_mediaUrl = None, pop_mediaType = None,
       pop_createdAt = 7\<rparr>] \<and>
   delivered ''s2'' (new_effects sample_both (step sample_verify hex_cast sample_both
      (PrivateMessage ''s1'' (Some [(''to'', id2)]) 7 db_ok))) =
     [\<lparr>pop_id = 0,
       pop_from = Some \<lparr>from_id = ObjectId id1, from_email = ''u1@example.org'',
                        from_displayName = ''One''\<rparr>,
       pop_to = Some (ObjectId id2), pop_text = [], pop_mediaUrl = None, pop_mediaType = None,
       pop_createdAt = 7\<rparr>] \<and>
   open_sessions (step sample_verify hex_cast sample_both
      (PrivateMessage ''s1'' (Some [(''to'', id2)]) 7 db_ok)) id1 = [''s1'']"
  by code_simp

section \<open>The presence broadcast\<close>

text \<open>
  Claim C10. In every reachable state, an admitted connection and the close of a connected
  socket each write, to every socket connected after the event, exactly one
  \<open>online_users\<close> event whose payload is the list of the keys of \<open>online\<close> after the
  mutation; a socket that is not connected gets none, and no \<open>message\<close> event is written.
\<close>

theorem presence_snapshot_reaches_every_session:
  assumes "s = run verify cast (init ms us) evs"
    and "(ev = Handshake k h \<and> isl (io_use verify h) = False \<and> k \<noteq> [] \<and>
            k \<notin> set (map fst (sockets s))) \<or>
         (ev = Disconnect k \<and> k \<in> set (map fst (sockets s)))"
  shows "presence k' (new_effects s (step verify cast s ev)) =
           (if k' \<in> set (map fst (sockets (step verify cast s ev)))
            then [map fst (online (step verify cast s ev))] else []) \<and>
         delivered k' (new_effects s (step verify cast s ev)) = []"
proof -
  have "wf s" using assms(1) by (simp add: wf_reachable)
  then have d: "distinct (map fst (sockets (step verify cast s ev)))"
    by (intro wf_distinct_sockets wf_step)
  from assms(2) have "new_effects s (step verify cast s ev) =
     io_emit (sockets (step verify cast s ev))
       (online_users (map fst (online (step verify cast s ev))))"
  proof
    assume a: "ev = Handshake k h \<and> isl (io_use verify h) = False \<and> k \<noteq> [] \<and>
            k \<notin> set (map fst (sockets s))"
    then obtain u where "io_use verify h = Inr u"
      by (cases "io_use verify h") simp_all
    with a show ?thesis by (simp add: connection_effects)
  next
    assume a: "ev = Disconnect k \<and> k \<in> set (map fst (sockets s))"
    then obtain u where "map_of (sockets s) k = Some u"
      by (cases "map_of (sockets s) k") (auto simp: map_of_eq_None_iff)
    with a show ?thesis by (simp add: disconnect_effects)
  qed
  with d show ?thesis
    by (simp add: presence_io_emit)
qed

text \<open>The sample runs for C10: \<open>u2\<close> connects while \<open>u1\<close> is connected, and the socket of
  \<open>u1\<close> gets the snapshot of both ids; \<open>u2\<close> closes, and it gets the snapshot of its own
  id alone.\<close>

theorem presence_snapshot_witness:
  "(presence ''s1'' (new_effects sample_alone
        (step sample_verify hex_cast sample_alone (Handshake ''s2'' (bearer ''t2'')))) =
     (if ''s1'' \<in> set (map fst (sockets
           (step sample_verify hex_cast sample_alone (Handshake ''s2'' (bearer ''t2'')))))
      then [map fst (online
           (step sample_verify hex_cast sample_alone (Handshake ''s2'' (bearer ''t2''))))]
      else []) \<and>
    delivered ''s1'' (new_effects sample_alone
        (step sample_verify hex_cast sample_alone (Handshake ''s2'' (bearer ''t2'')))) = []) \<and>
   (presence ''s1''
      (new_effects sample_both (step sample_verify hex_cast sample_both (Disconnect ''s2''))) =
     (if ''s1'' \<in> set (map fst (sockets (step sample_verify hex_cast sample_both (Disconnect ''s2''))))
      then [map fst (online (step sample_verify hex_cast sample_both (Disconnect ''s2'')))]
      else []) \<and>
    delivered ''s1''
      (new_effects sample_both (step sample_verify hex_cast sample_both (Disconnect ''s2''))) = []) \<and>
   presence ''s1'' (new_effects sample_alone
        (step sample_verify hex_cast sample_alone (Handshake ''s2'' (bearer ''t2'')))) =
     [id1, id2] # [] \<and>
   presence ''s1''
      (new_effects sample_both (step sample_verify hex_cast sample_both (Disconnect ''s2''))) =
     [id1] # []"
proof -
  have a: "Handshake ''s2'' (bearer ''t2'') = Handshake ''s2'' (bearer ''t2'') \<and>
           isl (io_use sample_verify (bearer ''t2'')) = False \<and> ''s2'' \<noteq> [] \<and>
           ''s2'' \<notin> set (map fst (sockets sample_alone))"
    by code_simp
  have b: "Disconnect ''s2'' = Disconnect ''s2'' \<and> ''s2'' \<in> set (map fst (sockets sample_both))"
    by code_simp
  have c: "presence ''s1'' (new_effects sample_alone
        (step sample_verify hex_cast sample_alone (Handshake ''s2'' (bearer ''t2'')))) =
     [id1, id2] # []"
    by code_simp
  have d: "presence ''s1''
      (new_effects sample_both (step sample_verify hex_cast sample_both (Disconnect ''s2''))) =
     [id1] # []"
    by code_simp
  show ?thesis
    by (rule conjI
         [OF presence_snapshot_reaches_every_session [OF sample_alone_def disjI1 [OF a]]
             conjI [OF presence_snapshot_reaches_every_session [OF sample_both_def disjI2 [OF b]]
                       conjI [OF c d]]])
qed

section \<open>Presence and open sessions\<close>

text \<open>
  Claim C2, as the code has it. \<open>online\<close> holds one entry per identity, set by each
  connection of the identity and deleted by each close of a socket of the identity. In
  every reachable state an identity that is online has an open session. The converse holds
  in every run in which no identity ever has two sockets connected at once. With two
  sockets of one identity connected, the close of either takes the identity out of
  \<open>online\<close> while the other socket stays connected.
\<close>

theorem presence_follows_last_connect_or_disconnect:
  assumes "s = run verify cast (init ms us) evs"
  shows "(isOnline s i \<longrightarrow> open_sessions s i \<noteq> []) \<and>
         (single_session_run verify cast (init ms us) evs \<longrightarrow>
            (isOnline s i \<longleftrightarrow> open_sessions s i \<noteq> [])) \<and>
         (k1 \<in> set (open_sessions s i) \<and> k2 \<in> set (open_sessions s i) \<and> k1 \<noteq> k2 \<longrightarrow>
            \<not> isOnline (step verify cast s (Disconnect k1)) i \<and>
            k2 \<in> set (open_sessions (step verify cast s (Disconnect k1)) i))"
proof -
  have wf: "wf s" using assms by (simp add: wf_reachable)
  have a: "isOnline s i \<longrightarrow> open_sessions s i \<noteq> []"
    using wf by (simp add: wf_online_has_session)
  have b: "isOnline s i \<longleftrightarrow> open_sessions s i \<noteq> []"
    if "single_session_run verify cast (init ms us) evs"
  proof -
    have "covered s"
      unfolding assms using covered_init wf_init that by (rule covered_run)
    then have "open_sessions s i \<noteq> [] \<longrightarrow> isOnline s i"
      unfolding open_sessions_nonempty_iff covered_def isOnline_def by blast
    with a show ?thesis by blast
  qed
  have c: "\<not> isOnline (step verify cast s (Disconnect k1)) i \<and>
           k2 \<in> set (open_sessions (step verify cast s (Disconnect k1)) i)"
    if "k1 \<in> set (open_sessions s i)" "k2 \<in> set (open_sessions s i)" "k1 \<noteq> k2"
  proof -
    from that obtain u1 u2 where
      u1: "(k1, u1) \<in> set (sockets s)" "user_id u1 = i" and
      u2: "(k2, u2) \<in> set (sockets s)" "user_id u2 = i"
      unfolding open_sessions_iff by blast
    from wf u1(1) have m: "map_of (sockets s) k1 = Some u1"
      by (simp add: wf_def)
    from disconnect_offline [OF m] u1(2)
    have "\<not> isOnline (step verify cast s (Disconnect k1)) i" by simp
    moreover from disconnect_keeps_other [OF m u2(1)] that(3) u2(2)
    have "k2 \<in> set (open_sessions (step verify cast s (Disconnect k1)) i)"
      unfolding open_sessions_iff by blast
    ultimately show ?thesis by simp
  qed
  from a b c show ?thesis by blast
qed

text \<open>The sample runs for the amended C2: \<open>u1\<close> and \<open>u2\<close> with one socket each; and \<open>u2\<close>
  with the two sockets \<open>s2\<close> and \<open>s3\<close>, of which \<open>s2\<close> closes.\<close>

theorem presence_witness:
  "(isOnline sample_both id1 \<longleftrightarrow> open_sessions sample_both id1 \<noteq> []) \<and>
   open_sessions sample_both id1 \<noteq> [] \<and>
   \<not> isOnline (step sample_verify hex_cast sample_twice (Disconnect ''s2'')) id2 \<and>
   ''s3'' \<in> set (open_sessions (step sample_verify hex_cast sample_twice (Disconnect ''s2'')) id2)"
proof -
  have a: "single_session_run sample_verify hex_cast (init [] sample_users)
       [Handshake ''s1'' (bearer ''t1''), Handshake ''s2'' (bearer ''t2'')]"
    by code_simp
  have b: "isOnline sample_both id1"
    by code_simp
  have c: "''s2'' \<in> set (open_sessions sample_twice id2) \<and>
           ''s3'' \<in> set (open_sessions sample_twice id2) \<and> ''s2'' \<noteq> ''s3''"
    by code_simp
  note T1 = presence_follows_last_connect_or_disconnect
      [where i = id1, OF sample_both_def]
  note T2 = presence_follows_last_connect_or_disconnect
      [where i = id2 and ?k1.0 = "''s2''" and ?k2.0 = "''s3''", OF sample_twice_def]
  note iff = T1 [THEN conjunct2, THEN conjunct1, THEN mp, OF a]
  note open1 = T1 [THEN conjunct1, THEN mp, OF b]
  note after = T2 [THEN conjunct2, THEN conjunct2, THEN mp, OF c]
  show ?thesis
    by (rule conjI [OF iff conjI [OF open1 after]])
qed

text \<open>
  Claim C2 as stated fails: \<open>u1\<close> connects on \<open>s1\<close> and on \<open>s2\<close>, then \<open>s1\<close> closes. \<open>u1\<close>
  is not online, and its session \<open>s2\<close> is open.
\<close>

theorem presence_counterexample:
  "isOnline (run sample_verify hex_cast (init [] sample_users)
      [Handshake ''s1'' (bearer ''t1''), Handshake ''s2'' (bearer ''t1''), Disconnect ''s1'']) id1 = False \<and>
   open_sessions (run sample_verify hex_cast (init [] sample_users)
      [Handshake ''s1'' (bearer ''t1''), Handshake ''s2'' (bearer ''t1''), Disconnect ''s1'']) id1 = [''s2'']"
  by code_simp

section \<open>One handle per identity\<close>

text \<open>
  Claim C7. In a reachable state, let the same identity \<open>i\<close> connect on \<open>k1\<close> and then on
  \<open>k2\<close>. After the first connection \<open>online\<close> maps \<open>i\<close> to \<open>k1\<close>; after the second it has
  exactly one entry for \<open>i\<close>, and that entry holds \<open>k2\<close>: the handle of the first session is
  overwritten, while both sockets are connected and \<open>i\<close> is online. When the first socket
  then closes, \<open>i\<close> is no longer online although \<open>k2\<close> is still connected.
\<close>

theorem second_connection_overwrites_first:
  assumes "s = run verify cast (init ms us) evs"
    and "io_use verify h1 = Inr u1" and "io_use verify h2 = Inr u2"
    and "user_id u1 = i" and "user_id u2 = i"
    and "k1 \<noteq> []" and "k2 \<noteq> []" and "k1 \<noteq> k2"
    and "k1 \<notin> set (map fst (sockets s))" and "k2 \<notin> set (map fst (sockets s))"
  shows "map_of (online (run verify cast s [Handshake k1 h1])) i = Some k1 \<and>
         filter (\<lambda>e. fst e = i) (online (run verify cast s [Handshake k1 h1, Handshake k2 h2])) =
           [(i, k2)] \<and>
         k1 \<in> set (open_sessions (run verify cast s [Handshake k1 h1, Handshake k2 h2]) i) \<and>
         k2 \<in> set (open_sessions (run verify cast s [Handshake k1 h1, Handshake k2 h2]) i) \<and>
         isOnline (run verify cast s [Handshake k1 h1, Handshake k2 h2]) i \<and>
         \<not> isOnline (run verify cast s [Handshake k1 h1, Handshake k2 h2, Disconnect k1]) i \<and>
         k2 \<in> set (open_sessions
                     (run verify cast s [Handshake k1 h1, Handshake k2 h2, Disconnect k1]) i)"
proof -
  let ?s1 = "on_connection s k1 u1"
  let ?s2 = "on_connection ?s1 k2 u2"
  have s1: "run verify cast s [Handshake k1 h1] = ?s1"
    using assms by simp
  have fresh2: "k2 \<notin> set (map fst (sockets ?s1))"
    using assms by (simp add: on_connection_def Let_def)
  have s2: "run verify cast s [Handshake k1 h1, Handshake k2 h2] = ?s2"
    using step_accepted_handshake [OF assms(3,7) fresh2] s1 by simp
  have wf2: "wf ?s2"
    using wf_reachable [of verify cast ms us "evs @ [Handshake k1 h1, Handshake k2 h2]"] assms(1) s2
    by (simp add: run_append)
  have sock2: "sockets ?s2 = sockets s @ [(k1, u1), (k2, u2)]"
    by (simp add: on_connection_def Let_def)
  have onl2: "online ?s2 = AList.update i k2 (AList.update i k1 (online s))"
    using assms(4,5) by (simp add: on_connection_def Let_def)
  have m2: "map_of (online ?s2) i = Some k2"
    unfolding onl2 by (simp add: update_conv')
  have one: "filter (\<lambda>e. fst e = i) (online ?s2) = [(i, k2)]"
    using wf2 m2 by (intro filter_key_unique) (simp_all add: wf_def)
  have o1: "k1 \<in> set (open_sessions ?s2 i)" and o2: "k2 \<in> set (open_sessions ?s2 i)"
    unfolding open_sessions_iff sock2 using assms(4,5) by auto
  have on2: "isOnline ?s2 i"
    unfolding isOnline_def onl2 by (simp add: keys_update)
  have "map_of (sockets s) k1 = None"
    using assms(9) by (simp add: map_of_eq_None_iff)
  then have mk1: "map_of (sockets ?s2) k1 = Some u1"
    unfolding sock2 using assms(8) by (simp add: map_add_def)
  have s3: "run verify cast s [Handshake k1 h1, Handshake k2 h2, Disconnect k1] =
            step verify cast ?s2 (Disconnect k1)"
    using s2 run_append [of verify cast s "[Handshake k1 h1, Handshake k2 h2]" "[Disconnect k1]"]
    by simp
  have off3: "\<not> isOnline (step verify cast ?s2 (Disconnect k1)) i"
    using disconnect_offline [OF mk1] assms(4) by simp
  have "(k2, u2) \<in> set (sockets (step verify cast ?s2 (Disconnect k1)))"
    using mk1 assms(8) by (intro disconnect_keeps_other) (simp_all add: sock2)
  then have o3: "k2 \<in> set (open_sessions (step verify cast ?s2 (Disconnect k1)) i)"
    unfolding open_sessions_iff using assms(5) by blast
  have m1: "map_of (online ?s1) i = Some k1"
    using assms(4) by (simp add: on_connection_def Let_def update_conv')
  show ?thesis
    unfolding s1 s2 s3 using m1 one o1 o2 on2 off3 o3 by blast
qed

text \<open>The sample run for C7: with \<open>u1\<close> connected, \<open>u2\<close> connects on \<open>s2\<close> and on \<open>s3\<close>.\<close>

theorem second_connection_witness:
  "map_of (online (run sample_verify hex_cast sample_alone [Handshake ''s2'' (bearer ''t2'')])) id2 =
     Some ''s2'' \<and>
   filter (\<lambda>e. fst e = id2) (online (run sample_verify hex_cast sample_alone
      [Handshake ''s2'' (bearer ''t2''), Handshake ''s3'' (bearer ''t2'')])) = [(id2, ''s3'')] \<and>
   ''s2'' \<in> set (open_sessions (run sample_verify hex_cast sample_alone
      [Handshake ''s2'' (bearer ''t2''), Handshake ''s3'' (bearer ''t2'')]) id2) \<and>
   ''s3'' \<in> set (open_sessions (run sample_verify hex_cast sample_alone
      [Handshake ''s2'' (bearer ''t2''), Handshake ''s3'' (bearer ''t2'')]) id2) \<and>
   isOnline (run sample_verify hex_cast sample_alone
      [Handshake ''s2'' (bearer ''t2''), Handshake ''s3'' (bearer ''t2'')]) id2 \<and>
   \<not> isOnline (run sample_verify hex_cast sample_alone
      [Handshake ''s2'' (bearer ''t2''), Handshake ''s3'' (bearer ''t2''), Disconnect ''s2'']) id2 \<and>
   ''s3'' \<in> set (open_sessions (run sample_verify hex_cast sample_alone
      [Handshake ''s2'' (bearer ''t2''), Handshake ''s3'' (bearer ''t2''), Disconnect ''s2'']) id2)"
proof -
  have a: "io_use sample_verify (bearer ''t2'') = Inr sample_u2"
    by code_simp
  have b: "user_id sample_u2 = id2"
    by code_simp
  have c: "''s2'' \<noteq> []" "''s3'' \<noteq> []" "''s2'' \<noteq> ''s3''"
    "''s2'' \<notin> set (map fst (sockets sample_alone))"
    "''s3'' \<notin> set (map fst (sockets sample_alone))"
    by code_simp+
  show ?thesis
    by (rule second_connection_overwrites_first [OF sample_alone_def a a b b c])
qed

section \<open>The echo to the sender\<close>

text \<open>
  Claim C6, as the code has it. In every reachable state, a \<open>private_message\<close> on the
  connected socket \<open>k\<close> whose ids cast and that the database accepts writes the populated
  message to \<open>k\<close> once, and a second time exactly when the entry of \<open>online\<close> for the
  recipient is \<open>k\<close> itself. That entry is \<open>k\<close> only if the recipient is the sender's own
  identity: a message to any other identity is echoed to its sender exactly once. A send
  whose ids do not cast is not accepted and nothing is delivered for it.
\<close>

theorem sender_echo_count:
  assumes "s = run verify cast (init ms us) evs"
    and "map_of (sockets s) k = Some u"
  shows "(cast (user_id u) = Some a \<and> cast_path cast (map_of p ''to'') = Some t \<longrightarrow>
            delivered k (new_effects s (step verify cast s (PrivateMessage k (Some p) now db_ok))) =
              (if map_of (online s) (String_js (map_of p ''to'')) = Some k
               then [populate (users s) (created_doc s a t p now),
                     populate (users s) (created_doc s a t p now)]
               else [populate (users s) (created_doc s a t p now)])) \<and>
         (cast (user_id u) = None \<or> cast_path cast (map_of p ''to'') = None \<longrightarrow>
            delivered k (new_effects s (step verify cast s (PrivateMessage k (Some p) now db_ok))) =
              []) \<and>
         (String_js (map_of p ''to'') \<noteq> user_id u \<longrightarrow>
            map_of (online s) (String_js (map_of p ''to'')) \<noteq> Some k)"
proof -
  let ?r = "map_of (online s) (String_js (map_of p ''to''))"
  have wf: "wf s" using assms(1) by (simp add: wf_reachable)
  have own: "String_js (map_of p ''to'') = user_id u" if "?r = Some k"
  proof -
    from wf that obtain u' where "map_of (sockets s) k = Some u'"
      "user_id u' = String_js (map_of p ''to'')"
      unfolding wf_def by blast
    with assms(2) show ?thesis by simp
  qed
  have st: "step verify cast s (PrivateMessage k (Some p) now db_ok) =
            snd (on_private_message cast s k u (Some p) now db_ok)"
    using assms(2) by simp
  have valid: "delivered k (new_effects s (snd (on_private_message cast s k u (Some p) now db_ok))) =
           (if ?r = Some k
            then [populate (users s) (created_doc s a t p now),
                  populate (users s) (created_doc s a t p now)]
            else [populate (users s) (created_doc s a t p now)])"
    if c: "cast (user_id u) = Some a \<and> cast_path cast (map_of p ''to'') = Some t"
  proof -
    from c have c1: "cast (user_id u) = Some a" and c2: "cast_path cast (map_of p ''to'') = Some t"
      by simp_all
    show ?thesis
      unfolding accepted_send_effects [OF wf c1 c2]
      by (cases ?r) auto
  qed
  have invalid: "delivered k (new_effects s (snd (on_private_message cast s k u (Some p) now db_ok))) = []"
    if "cast (user_id u) = None \<or> cast_path cast (map_of p ''to'') = None"
    by (simp add: private_message_invalid [OF that])
  from valid invalid own show ?thesis
    unfolding st by blast
qed

text \<open>The sample runs for the amended C6: \<open>u1\<close> sends to \<open>u2\<close> and gets one echo; \<open>u1\<close>
  sends to a string that is no id and gets none.\<close>

theorem sender_echo_witness:
  "delivered ''s1'' (new_effects sample_alone
      (step sample_verify hex_cast sample_alone (PrivateMessage ''s1'' (Some sample_intent) 5 db_ok))) =
     [populate (users sample_alone)
        (created_doc sample_alone (ObjectId id1) (Some (ObjectId id2)) sample_intent 5)] \<and>
   delivered ''s1'' (new_effects sample_alone
      (step sample_verify hex_cast sample_alone
         (PrivateMessage ''s1'' (Some [(''to'', ''nobody''), (''text'', ''hi'')]) 5 db_ok))) = []"
proof -
  have a: "map_of (sockets sample_alone) ''s1'' = Some sample_u1"
    by code_simp
  have b: "String_js (map_of sample_intent ''to'') \<noteq> user_id sample_u1"
    by code_simp
  have c: "hex_cast (user_id sample_u1) = Some (ObjectId id1) \<and>
           cast_path hex_cast (map_of sample_intent ''to'') = Some (Some (ObjectId id2))"
    by code_simp
  have d: "hex_cast (user_id sample_u1) = None \<or>
           cast_path hex_cast (map_of [(''to'', ''nobody''), (''text'', ''hi'')] ''to'') = None"
    by code_simp
  note T = sender_echo_count [where p = sample_intent and now = 5, OF sample_alone_def a]
  note U = sender_echo_count
      [where p = "[(''to'', ''nobody''), (''text'', ''hi'')]" and now = 5, OF sample_alone_def a]
  note ne = T [THEN conjunct2, THEN conjunct2, THEN mp, OF b]
  have e: "delivered ''s1'' (new_effects sample_alone
      (step sample_verify hex_cast sample_alone (PrivateMessage ''s1'' (Some sample_intent) 5 db_ok))) =
     [populate (users sample_alone)
        (created_doc sample_alone (ObjectId id1) (Some (ObjectId id2)) sample_intent 5)]"
    using T [THEN conjunct1, THEN mp, OF c] ne by (simp only: if_False)
  show ?thesis
    by (rule conjI [OF e U [THEN conjunct2, THEN conjunct1, THEN mp, OF d]])
qed

text \<open>
  Claim C6 as stated fails: \<open>u1\<close>, connected on \<open>s1\<close>, sends a message to itself. The socket
  \<open>s1\<close> receives the \<open>message\<close> event twice.
\<close>

theorem sender_echo_counterexample:
  "length (delivered ''s1'' (new_effects sample_alone
      (step sample_verify hex_cast sample_alone
         (PrivateMessage ''s1'' (Some [(''to'', id1), (''text'', ''hi'')]) 5 db_ok)))) = 2"
  by code_simp

section \<open>The history route\<close>

text \<open>
  Claim C8. \<open>GET /api/messages\<close> verifies the credential of each request by itself: a
  request without an \<open>Authorization\<close> header is answered \<open>no token\<close>; one whose header has
  no second word, or whose second word \<open>jwt.verify\<close> rejects, is answered
  \<open>invalid token\<close>; and a list of messages is answered only to a request whose token
  verifies. For a caller verified as \<open>u\<close> and a non-empty \<open>with\<close> parameter, the query
  throws when \<open>user_id u\<close> or the parameter is no id. When they cast to \<open>me\<close> and \<open>oth\<close>,
  the answer is a list \<open>hist\<close> of stored messages, each from \<open>me\<close> to \<open>oth\<close> or from \<open>oth\<close>
  to \<open>me\<close>, in ascending order of \<open>createdAt\<close>, of length the smaller of 100 and the
  number of such messages: all of them when there are at most 100, and otherwise so that
  no message left out is older than one returned. The answer depends on the request and
  the collection only: no open socket or earlier call stands in for the credential.
\<close>

theorem history_is_both_directions_oldest_first_capped:
  "(\<not> truthy (authorization req) \<longrightarrow> get_messages verify cast s req = Inl no_token) \<and>
   (truthy (authorization req) \<and>
    index (split CHR '' '' (or_empty (authorization req))) 1 = None \<longrightarrow>
      get_messages verify cast s req = Inl invalid_token) \<and>
   (index (split CHR '' '' (or_empty (authorization req))) 1 = Some token \<and>
    verify token = None \<longrightarrow>
      get_messages verify cast s req = Inl invalid_token) \<and>
   (get_messages verify cast s req = Inr hist \<longrightarrow>
      (\<exists>token u. index (split CHR '' '' (or_empty (authorization req))) 1 = Some token \<and>
          verify token = Some u)) \<and>
   (index (split CHR '' '' (or_empty (authorization req))) 1 = Some token \<and>
    verify token = Some u \<and> query_with req = Some other \<and> other \<noteq> [] \<and>
    (cast (user_id u) = None \<or> cast other = None) \<longrightarrow>
      get_messages verify cast s req = Inl cast_error) \<and>
   (index (split CHR '' '' (or_empty (authorization req))) 1 = Some token \<and>
    verify token = Some u \<and> query_with req = Some other \<and> other \<noteq> [] \<and>
    cast (user_id u) = Some me \<and> cast other = Some oth \<longrightarrow>
      (\<exists>hist. get_messages verify cast s req = Inr hist \<and>
         (\<forall>m \<in> set hist. m \<in> set (messages s) \<and>
            ((msg_from m = me \<and> msg_to m = Some oth) \<or>
             (msg_from m = oth \<and> msg_to m = Some me))) \<and>
         sorted (map msg_createdAt hist) \<and>
         length hist = min 100 (length (filter (between me oth) (messages s))) \<and>
         (length (filter (between me oth) (messages s)) \<le> 100 \<longrightarrow>
            set hist = {m \<in> set (messages s). between me oth m}) \<and>
         (\<forall>m \<in> set (messages s). between me oth m \<and> m \<notin> set hist \<longrightarrow>
            (\<forall>h \<in> set hist. msg_createdAt h \<le> msg_createdAt m)))) \<and>
   (messages s' = messages s \<longrightarrow> get_messages verify cast s' req = get_messages verify cast s req)"
proof -
  let ?tok = "index (split CHR '' '' (or_empty (authorization req))) 1"
  have header: "truthy (authorization req)" if "?tok = Some token" for token
  proof (rule ccontr)
    assume "\<not> truthy (authorization req)"
    then have "or_empty (authorization req) = []"
      by (auto simp: truthy_def or_empty_def split: option.splits)
    with that show False by simp
  qed
  have auth: "authMiddleware verify req = Inr u" if "?tok = Some token" "verify token = Some u"
    for token u
    using that header [OF that(1)] by (simp add: authMiddleware_cases)
  have a: "get_messages verify cast s req = Inl no_token" if "\<not> truthy (authorization req)"
    using that by (simp add: get_messages_rejected authMiddleware_cases)
  have b1: "get_messages verify cast s req = Inl invalid_token"
    if "truthy (authorization req) \<and> ?tok = None"
    using that by (simp add: get_messages_rejected authMiddleware_cases)
  have b2: "get_messages verify cast s req = Inl invalid_token"
    if "?tok = Some token \<and> verify token = None"
    using that header [of token] by (simp add: get_messages_rejected authMiddleware_cases)
  have c: "\<exists>token u. ?tok = Some token \<and> verify token = Some u"
    if "get_messages verify cast s req = Inr hist"
  proof -
    from that obtain u where "authMiddleware verify req = Inr u"
      by (rule get_messages_Inr)
    then show ?thesis
      unfolding authMiddleware_cases by (auto split: if_splits option.splits)
  qed
  have e: "get_messages verify cast s req = Inl cast_error"
    if "?tok = Some token \<and> verify token = Some u \<and> query_with req = Some other \<and> other \<noteq> [] \<and>
        (cast (user_id u) = None \<or> cast other = None)"
  proof -
    from that have "authMiddleware verify req = Inr u" by (simp add: auth)
    with that show ?thesis
      by (auto simp: get_messages_def Let_def truthy_def or_empty_def split: option.splits)
  qed
  let ?xs = "sort_key msg_createdAt (filter (between me oth) (messages s))"
  let ?hist = "take 100 ?xs"
  have "set ?hist \<subseteq> set ?xs" by (rule set_take_subset)
  then have memb: "\<forall>m \<in> set ?hist. m \<in> set (messages s) \<and>
            ((msg_from m = me \<and> msg_to m = Some oth) \<or>
             (msg_from m = oth \<and> msg_to m = Some me))"
    by (auto simp: between_def)
  have srt: "sorted (map msg_createdAt ?hist)"
    by (simp add: take_map [symmetric] sorted_wrt_take)
  have len: "length ?hist = min 100 (length (filter (between me oth) (messages s)))"
    by simp
  have all: "set ?hist = {m \<in> set (messages s). between me oth m}"
    if "length (filter (between me oth) (messages s)) \<le> 100"
    using that by simp
  have old: "\<forall>m \<in> set (messages s). between me oth m \<and> m \<notin> set ?hist \<longrightarrow>
            (\<forall>h \<in> set ?hist. msg_createdAt h \<le> msg_createdAt m)"
  proof (intro ballI impI)
    fix m h
    assume "m \<in> set (messages s)" "between me oth m \<and> m \<notin> set ?hist" "h \<in> set ?hist"
    then show "msg_createdAt h \<le> msg_createdAt m"
      by (intro take_sorted_oldest [where xs = ?xs and n = 100]) simp_all
  qed
  have d: "\<exists>hist. get_messages verify cast s req = Inr hist \<and>
         (\<forall>m \<in> set hist. m \<in> set (messages s) \<and>
            ((msg_from m = me \<and> msg_to m = Some oth) \<or>
             (msg_from m = oth \<and> msg_to m = Some me))) \<and>
         sorted (map msg_createdAt hist) \<and>
         length hist = min 100 (length (filter (between me oth) (messages s))) \<and>
         (length (filter (between me oth) (messages s)) \<le> 100 \<longrightarrow>
            set hist = {m \<in> set (messages s). between me oth m}) \<and>
         (\<forall>m \<in> set (messages s). between me oth m \<and> m \<notin> set hist \<longrightarrow>
            (\<forall>h \<in> set hist. msg_createdAt h \<le> msg_createdAt m))"
    if "?tok = Some token \<and> verify token = Some u \<and> query_with req = Some other \<and> other \<noteq> [] \<and>
        cast (user_id u) = Some me \<and> cast other = Some oth"
  proof -
    from that have "authMiddleware verify req = Inr u" by (simp add: auth)
    with that have "get_messages verify cast s req = Inr ?hist"
      by (simp add: get_messages_ok)
    with memb srt len all old show ?thesis by blast
  qed
  have f: "get_messages verify cast s' req = get_messages verify cast s req"
    if "messages s' = messages s"
    unfolding get_messages_def Let_def that by (rule refl)
  from a b1 b2 c e d f show ?thesis by blast
qed

text \<open>The sample run for C8: after one message each way, a request without header, one
  with a header of one word, and one with a forged token are rejected; the request of
  \<open>u1\<close> for a string that is no id gets no answer; the request of \<open>u1\<close> for \<open>u2\<close> gets both
  messages, oldest first, and the same answer after the socket of \<open>u1\<close> has closed.\<close>

theorem history_witness:
  "get_messages sample_verify hex_cast sample_chat \<lparr>authorization = None, query_with = Some id2\<rparr> =
     Inl no_token \<and>
   get_messages sample_verify hex_cast sample_chat
     \<lparr>authorization = Some ''Bearer'', query_with = Some id2\<rparr> = Inl invalid_token \<and>
   get_messages sample_verify hex_cast sample_chat (history_request ''forged'' id2) =
     Inl invalid_token \<and>
   get_messages sample_verify hex_cast sample_chat (history_request ''t1'' ''nobody'') =
     Inl cast_error \<and>
   (\<exists>hist. get_messages sample_verify hex_cast sample_chat (history_request ''t1'' id2) = Inr hist \<and>
      sorted (map msg_createdAt hist) \<and>
      set hist = {m \<in> set (messages sample_chat). between (ObjectId id1) (ObjectId id2) m}) \<and>
   get_messages sample_verify hex_cast (step sample_verify hex_cast sample_chat (Disconnect ''s1''))
       (history_request ''t1'' id2) =
     get_messages sample_verify hex_cast sample_chat (history_request ''t1'' id2) \<and>
   map msg_text (projr (get_messages sample_verify hex_cast sample_chat (history_request ''t1'' id2))) =
     [''hi'', ''yo'']"
proof -
  have a: "\<not> truthy (authorization \<lparr>authorization = None, query_with = Some id2\<rparr>)"
    by code_simp
  have b1: "truthy (authorization \<lparr>authorization = Some ''Bearer'', query_with = Some id2\<rparr>) \<and>
      index (split CHR '' ''
        (or_empty (authorization \<lparr>authorization = Some ''Bearer'', query_with = Some id2\<rparr>))) 1 = None"
    by code_simp
  have b2: "index (split CHR '' '' (or_empty (authorization (history_request ''forged'' id2)))) 1 =
        Some ''forged'' \<and> sample_verify ''forged'' = None"
    by code_simp
  have e: "index (split CHR '' '' (or_empty (authorization (history_request ''t1'' ''nobody'')))) 1 =
        Some ''t1'' \<and> sample_verify ''t1'' = Some sample_u1 \<and>
      query_with (history_request ''t1'' ''nobody'') = Some ''nobody'' \<and> ''nobody'' \<noteq> [] \<and>
      (hex_cast (user_id sample_u1) = None \<or> hex_cast ''nobody'' = None)"
    by code_simp
  have d: "index (split CHR '' '' (or_empty (authorization (history_request ''t1'' id2)))) 1 =
        Some ''t1'' \<and> sample_verify ''t1'' = Some sample_u1 \<and>
      query_with (history_request ''t1'' id2) = Some id2 \<and> id2 \<noteq> [] \<and>
      hex_cast (user_id sample_u1) = Some (ObjectId id1) \<and> hex_cast id2 = Some (ObjectId id2)"
    by code_simp
  have c: "length (filter (between (ObjectId id1) (ObjectId id2)) (messages sample_chat)) \<le> 100"
    by code_simp
  have v: "map msg_text
      (projr (get_messages sample_verify hex_cast sample_chat (history_request ''t1'' id2))) =
     [''hi'', ''yo'']"
    by code_simp
  have f: "messages (step sample_verify hex_cast sample_chat (Disconnect ''s1'')) =
           messages sample_chat"
    by code_simp
  note Ta = history_is_both_directions_oldest_first_capped
      [where verify = sample_verify and cast = hex_cast and s = sample_chat
         and req = "\<lparr>authorization = None, query_with = Some id2\<rparr>", THEN conjunct1, THEN mp, OF a]
  note Tb1 = history_is_both_directions_oldest_first_capped
      [where verify = sample_verify and cast = hex_cast and s = sample_chat
         and req = "\<lparr>authorization = Some ''Bearer'', query_with = Some id2\<rparr>",
       THEN conjunct2, THEN conjunct1, THEN mp, OF b1]
  note Tb2 = history_is_both_directions_oldest_first_capped
      [where verify = sample_verify and cast = hex_cast and s = sample_chat
         and req = "history_request ''forged'' id2" and token = "''forged''",
       THEN conjunct2, THEN conjunct2, THEN conjunct1, THEN mp, OF b2]
  note Te = history_is_both_directions_oldest_first_capped
      [where verify = sample_verify and cast = hex_cast and s = sample_chat
         and req = "history_request ''t1'' ''nobody''" and token = "''t1''" and u = sample_u1
         and other = "''nobody''",
       THEN conjunct2, THEN conjunct2, THEN conjunct2, THEN conjunct2, THEN conjunct1, THEN mp, OF e]
  note T = history_is_both_directions_oldest_first_capped
      [where verify = sample_verify and cast = hex_cast and s = sample_chat
         and req = "history_request ''t1'' id2" and token = "''t1''" and u = sample_u1
         and other = id2 and me = "ObjectId id1" and oth = "ObjectId id2"
         and s' = "step sample_verify hex_cast sample_chat (Disconnect ''s1'')"]
  note Td = T [THEN conjunct2, THEN conjunct2, THEN conjunct2, THEN conjunct2, THEN conjunct2,
      THEN conjunct1, THEN mp, OF d]
  note Tf = T [THEN conjunct2, THEN conjunct2, THEN conjunct2, THEN conjunct2, THEN conjunct2,
      THEN conjunct2, THEN mp, OF f]
  from Td c
  have h: "\<exists>hist. get_messages sample_verify hex_cast sample_chat (history_request ''t1'' id2) =
        Inr hist \<and> sorted (map msg_createdAt hist) \<and>
      set hist = {m \<in> set (messages sample_chat). between (ObjectId id1) (ObjectId id2) m}"
    by blast
  show ?thesis
    by (rule conjI [OF Ta conjI [OF Tb1 conjI [OF Tb2 conjI [OF Te conjI [OF h conjI [OF Tf v]]]]]])
qed

section \<open>Routing a message\<close>

text \<open>
  Claim C1, as the code has it. In a reachable state let \<open>A\<close> send, on its connected socket
  \<open>kA\<close>, a payload whose \<open>to\<close> is the string \<open>B\<close>, not the id of \<open>A\<close>; let the id of \<open>A\<close> and
  \<open>B\<close> cast to the ObjectIds \<open>a\<close> and \<open>b\<close>, the database work, and the \<open>User\<close> collection
  hold the document of \<open>a\<close>. The collection gains exactly the one document \<open>m\<close> with
  \<open>from = a\<close>, \<open>to = b\<close> and the text of the payload, and the populated message carries the
  same fields. If \<open>online\<close> has an entry \<open>kB\<close> under the string \<open>B\<close>, then \<open>kB\<close> is a
  connected socket of \<open>B\<close> other than \<open>kA\<close>, and \<open>kA\<close> and \<open>kB\<close> each receive the message
  exactly once and nothing else is emitted. If \<open>online\<close> has no entry under \<open>B\<close>, only
  \<open>kA\<close> receives it. A history request of \<open>A\<close> for \<open>b\<close> made in the resulting state
  returns \<open>m\<close>, provided fewer than 100 messages between the two were stored before.
\<close>

theorem routed_message_is_stored_and_delivered:
  assumes "s = run verify cast (init ms us) evs"
    and "map_of (sockets s) kA = Some uA"
    and "map_of p ''to'' = Some B" and "B \<noteq> user_id uA"
    and "cast (user_id uA) = Some a" and "cast B = Some b"
    and "map_of (users s) a = Some d"
    and "s' = step verify cast s (PrivateMessage kA (Some p) now db_ok)"
    and "m = created_doc s a (Some b) p now"
    and "pop = populate (users s) m"
  shows "messages s' = messages s @ [m] \<and>
         msg_from m = a \<and> msg_to m = Some b \<and> msg_text m = or_empty (map_of p ''text'') \<and>
         pop_from pop = Some \<lparr>from_id = a, from_email = doc_email d,
                               from_displayName = doc_displayName d\<rparr> \<and>
         pop_to pop = Some b \<and> pop_text pop = or_empty (map_of p ''text'') \<and>
         (map_of (online s) B = Some kB \<longrightarrow>
            kB \<noteq> kA \<and> kB \<in> set (open_sessions s B) \<and>
            new_effects s s' = [Created m, Emitted kA (message_ev pop), Emitted kB (message_ev pop)] \<and>
            delivered kA (new_effects s s') = [pop] \<and> delivered kB (new_effects s s') = [pop]) \<and>
         (map_of (online s) B = None \<longrightarrow>
            new_effects s s' = [Created m, Emitted kA (message_ev pop)] \<and>
            delivered kA (new_effects s s') = [pop]) \<and>
         (authMiddleware verify req = Inr uA' \<and> user_id uA' = user_id uA \<and>
          query_with req = Some w \<and> w \<noteq> [] \<and> cast w = Some b \<and>
          length (filter (between a b) (messages s)) < 100 \<longrightarrow>
            (\<exists>hist. get_messages verify cast s' req = Inr hist \<and> m \<in> set hist))"
proof -
  have wf: "wf s" using assms(1) by (simp add: wf_reachable)
  have cp: "cast_path cast (map_of p ''to'') = Some (Some b)"
    using assms(3,6) by (simp add: cast_path_def)
  have st: "s' = snd (on_private_message cast s kA uA (Some p) now db_ok)"
    using assms(2,8) by simp
  have msgs: "messages s' = messages s @ [m]"
    unfolding st assms(9) by (simp add: private_message_db_ok [OF assms(5) cp])
  have fields: "msg_from m = a" "msg_to m = Some b"
    "msg_text m = or_empty (map_of p ''text'')"
    unfolding assms(9) by (simp_all add: created_doc_def)
  have popf: "pop_from pop = Some \<lparr>from_id = a, from_email = doc_email d,
                               from_displayName = doc_displayName d\<rparr>"
    "pop_to pop = Some b" "pop_text pop = or_empty (map_of p ''text'')"
    unfolding assms(10) using fields assms(7) by (simp_all add: populate_def)
  have to: "String_js (map_of p ''to'') = B"
    using assms(3) by (simp add: String_js_def)
  have eff: "new_effects s s' = Created m # Emitted kA (message_ev pop) #
          (case map_of (online s) B of None \<Rightarrow> [] | Some r \<Rightarrow> [Emitted r (message_ev pop)])"
    unfolding st assms(9,10) using accepted_send_effects [OF wf assms(5) cp, of kA now]
    by (simp only: to)
  have online_case: "kB \<noteq> kA \<and> kB \<in> set (open_sessions s B) \<and>
            new_effects s s' = [Created m, Emitted kA (message_ev pop), Emitted kB (message_ev pop)] \<and>
            delivered kA (new_effects s s') = [pop] \<and> delivered kB (new_effects s s') = [pop]"
    if kB: "map_of (online s) B = Some kB"
  proof -
    from wf kB obtain uB where uB: "map_of (sockets s) kB = Some uB" "user_id uB = B"
      unfolding wf_def by blast
    with assms(2,4) have ne: "kB \<noteq> kA" by auto
    from uB(1) have "(kB, uB) \<in> set (sockets s)" by (rule map_of_SomeD)
    with uB(2) have "kB \<in> set (open_sessions s B)"
      unfolding open_sessions_iff by blast
    with ne eff kB show ?thesis by simp
  qed
  have offline_case: "new_effects s s' = [Created m, Emitted kA (message_ev pop)] \<and>
            delivered kA (new_effects s s') = [pop]"
    if "map_of (online s) B = None"
    using eff that by simp
  have hist: "\<exists>hist. get_messages verify cast s' req = Inr hist \<and> m \<in> set hist"
    if h: "authMiddleware verify req = Inr uA' \<and> user_id uA' = user_id uA \<and>
          query_with req = Some w \<and> w \<noteq> [] \<and> cast w = Some b \<and>
          length (filter (between a b) (messages s)) < 100"
  proof -
    have "between a b m"
      using fields by (simp add: between_def)
    moreover have "length (filter (between a b) (messages s')) \<le> 100"
      using h msgs by simp
    moreover have "m \<in> set (messages s')"
      using msgs by simp
    moreover from h assms(5) have "authMiddleware verify req = Inr uA'" "query_with req = Some w"
      "w \<noteq> []" "cast (user_id uA') = Some a" "cast w = Some b"
      by simp_all
    ultimately show ?thesis
      using get_messages_contains [of verify req uA' w cast a b m s'] by blast
  qed
  from msgs fields popf online_case offline_case hist show ?thesis
    by blast
qed

text \<open>The sample runs for the amended C1: \<open>u1\<close> sends to \<open>u2\<close>, once with \<open>u2\<close> connected
  and once with \<open>u2\<close> away, followed by the history request of \<open>u1\<close>.\<close>

theorem routed_message_witness:
  "delivered ''s1'' (new_effects sample_both
      (step sample_verify hex_cast sample_both (PrivateMessage ''s1'' (Some sample_intent) 5 db_ok))) =
     [populate (users sample_both)
        (created_doc sample_both (ObjectId id1) (Some (ObjectId id2)) sample_intent 5)] \<and>
   delivered ''s2'' (new_effects sample_both
      (step sample_verify hex_cast sample_both (PrivateMessage ''s1'' (Some sample_intent) 5 db_ok))) =
     [populate (users sample_both)
        (created_doc sample_both (ObjectId id1) (Some (ObjectId id2)) sample_intent 5)] \<and>
   messages (step sample_verify hex_cast sample_both
      (PrivateMessage ''s1'' (Some sample_intent) 5 db_ok)) =
     messages sample_both @
       [created_doc sample_both (ObjectId id1) (Some (ObjectId id2)) sample_intent 5] \<and>
   new_effects sample_alone
      (step sample_verify hex_cast sample_alone (PrivateMessage ''s1'' (Some sample_intent) 5 db_ok)) =
     [Created (created_doc sample_alone (ObjectId id1) (Some (ObjectId id2)) sample_intent 5),
      Emitted ''s1'' (message_ev (populate (users sample_alone)
        (created_doc sample_alone (ObjectId id1) (Some (ObjectId id2)) sample_intent 5)))] \<and>
   (\<exists>hist. get_messages sample_verify hex_cast
        (step sample_verify hex_cast sample_alone (PrivateMessage ''s1'' (Some sample_intent) 5 db_ok))
        (history_request ''t1'' id2) = Inr hist \<and>
      created_doc sample_alone (ObjectId id1) (Some (ObjectId id2)) sample_intent 5 \<in> set hist)"
proof -
  have a: "map_of (sockets sample_both) ''s1'' = Some sample_u1"
    "map_of sample_intent ''to'' = Some id2"
    "id2 \<noteq> user_id sample_u1"
    "hex_cast (user_id sample_u1) = Some (ObjectId id1)"
    "hex_cast id2 = Some (ObjectId id2)"
    "map_of (users sample_both) (ObjectId id1) =
       Some \<lparr>doc_email = ''u1@example.org'', doc_displayName = ''One''\<rparr>"
    by code_simp+
  have b: "map_of (sockets sample_alone) ''s1'' = Some sample_u1"
    "map_of sample_intent ''to'' = Some id2"
    "id2 \<noteq> user_id sample_u1"
    "hex_cast (user_id sample_u1) = Some (ObjectId id1)"
    "hex_cast id2 = Some (ObjectId id2)"
    "map_of (users sample_alone) (ObjectId id1) =
       Some \<lparr>doc_email = ''u1@example.org'', doc_displayName = ''One''\<rparr>"
    by code_simp+
  have on: "map_of (online sample_both) id2 = Some ''s2''"
    by code_simp
  have off: "map_of (online sample_alone) id2 = None"
    by code_simp
  have h: "authMiddleware sample_verify (history_request ''t1'' id2) = Inr sample_u1 \<and>
           user_id sample_u1 = user_id sample_u1 \<and>
           query_with (history_request ''t1'' id2) = Some id2 \<and> id2 \<noteq> [] \<and>
           hex_cast id2 = Some (ObjectId id2) \<and>
           length (filter (between (ObjectId id1) (ObjectId id2)) (messages sample_alone)) < 100"
    by code_simp
  note T1 = routed_message_is_stored_and_delivered
      [where kB = "''s2''" and now = 5, OF sample_both_def a refl refl refl]
  note T2 = routed_message_is_stored_and_delivered
      [where now = 5 and req = "history_request ''t1'' id2" and uA' = sample_u1 and w = id2,
       OF sample_alone_def b refl refl refl]
  from T1 on have c1: "delivered ''s1'' (new_effects sample_both
      (step sample_verify hex_cast sample_both (PrivateMessage ''s1'' (Some sample_intent) 5 db_ok))) =
     [populate (users sample_both)
        (created_doc sample_both (ObjectId id1) (Some (ObjectId id2)) sample_intent 5)] \<and>
   delivered ''s2'' (new_effects sample_both
      (step sample_verify hex_cast sample_both (PrivateMessage ''s1'' (Some sample_intent) 5 db_ok))) =
     [populate (users sample_both)
        (created_doc sample_both (ObjectId id1) (Some (ObjectId id2)) sample_intent 5)] \<and>
   messages (step sample_verify hex_cast sample_both
      (PrivateMessage ''s1'' (Some sample_intent) 5 db_ok)) =
     messages sample_both @
       [created_doc sample_both (ObjectId id1) (Some (ObjectId id2)) sample_intent 5]"
    by blast
  from T2 off h have c2: "new_effects sample_alone
      (step sample_verify hex_cast sample_alone (PrivateMessage ''s1'' (Some sample_intent) 5 db_ok)) =
     [Created (created_doc sample_alone (ObjectId id1) (Some (ObjectId id2)) sample_intent 5),
      Emitted ''s1'' (message_ev (populate (users sample_alone)
        (created_doc sample_alone (ObjectId id1) (Some (ObjectId id2)) sample_intent 5)))] \<and>
   (\<exists>hist. get_messages sample_verify hex_cast
        (step sample_verify hex_cast sample_alone (PrivateMessage ''s1'' (Some sample_intent) 5 db_ok))
        (history_request ''t1'' id2) = Inr hist \<and>
      created_doc sample_alone (ObjectId id1) (Some (ObjectId id2)) sample_intent 5 \<in> set hist)"
    by blast
  from c1 c2 show ?thesis by blast
qed

text \<open>
  Claim C1 as stated fails, in five ways, each at an accepted send from \<open>u1\<close> on \<open>s1\<close> to
  \<open>u2\<close>.
  \<^item> The collection holds one hundred earlier messages from \<open>u1\<close> to \<open>u2\<close> and \<open>u2\<close> is away:
    the message is stored, and the history request of \<open>u1\<close> for \<open>u2\<close> returns the hundred
    earlier messages without it.
  \<^item> \<open>u2\<close> has connected on \<open>s2\<close> and \<open>s3\<close> and \<open>s2\<close> has closed: \<open>u2\<close> has the open session
    \<open>s3\<close> and \<open>u1\<close> the open session \<open>s1\<close>, and only \<open>s1\<close> is written to.
  \<^item> \<open>u2\<close> is connected on \<open>s2\<close> and \<open>s3\<close>: \<open>s1\<close> and \<open>s3\<close> are written to, \<open>s2\<close> is not.
  \<^item> The \<open>User\<close> collection is empty: the event that \<open>s1\<close> receives has \<open>from = null\<close>.
  \<^item> The payload spells the id of \<open>u2\<close> in upper case: it casts to the same ObjectId, which
    is stored as \<open>to\<close>, and \<open>u2\<close> is online, but only \<open>s1\<close> is written to.
\<close>

theorem routed_message_counterexample:
  "(get_messages sample_verify hex_cast
      (run sample_verify hex_cast (init sample_history sample_users)
         [Handshake ''s1'' (bearer ''t1''),
          PrivateMessage ''s1'' (Some sample_intent) 100 db_ok])
      (history_request ''t1'' id2) = Inr sample_history \<and>
    messages (run sample_verify hex_cast (init sample_history sample_users)
         [Handshake ''s1'' (bearer ''t1''),
          PrivateMessage ''s1'' (Some sample_intent) 100 db_ok]) =
      sample_history @
        [\<lparr>msg_id = 100, msg_from = ObjectId id1, msg_to = Some (ObjectId id2), msg_text = ''hi'',
          msg_mediaUrl = None, msg_mediaType = None, msg_createdAt = 100\<rparr>] \<and>
    \<lparr>msg_id = 100, msg_from = ObjectId id1, msg_to = Some (ObjectId id2), msg_text = ''hi'',
      msg_mediaUrl = None, msg_mediaType = None, msg_createdAt = 100\<rparr> \<notin> set sample_history \<and>
    isOnline (run sample_verify hex_cast (init sample_history sample_users)
         [Handshake ''s1'' (bearer ''t1'')]) id2 = False) \<and>
   (open_sessions (step sample_verify hex_cast sample_twice (Disconnect ''s2'')) id2 = [''s3''] \<and>
    open_sessions (step sample_verify hex_cast sample_twice (Disconnect ''s2'')) id1 = [''s1''] \<and>
    targets (new_effects (step sample_verify hex_cast sample_twice (Disconnect ''s2''))
      (step sample_verify hex_cast (step sample_verify hex_cast sample_twice (Disconnect ''s2''))
         (PrivateMessage ''s1'' (Some sample_intent) 5 db_ok))) = [''s1'']) \<and>
   (open_sessions sample_twice id2 = [''s2'', ''s3''] \<and>
    targets (new_effects sample_twice
      (step sample_verify hex_cast sample_twice
         (PrivateMessage ''s1'' (Some sample_intent) 5 db_ok))) = [''s1'', ''s3'']) \<and>
   (map pop_from (delivered ''s1'' (trace
      (run sample_verify hex_cast (init [] [])
         [Handshake ''s1'' (bearer ''t1''), Handshake ''s2'' (bearer ''t2''),
          PrivateMessage ''s1'' (Some sample_intent) 5 db_ok]))) = [None]) \<and>
   (hex_cast id2_upper = hex_cast id2 \<and> isOnline sample_both id2 \<and>
    map msg_to (messages (step sample_verify hex_cast sample_both
       (PrivateMessage ''s1'' (Some [(''to'', id2_upper), (''text'', ''hi'')]) 5 db_ok))) =
      [Some (ObjectId id2)] \<and>
    targets (new_effects sample_both
      (step sample_verify hex_cast sample_both
         (PrivateMessage ''s1'' (Some [(''to'', id2_upper), (''text'', ''hi'')]) 5 db_ok))) =
      [''s1''])"
  by code_simp

end
